theory Spec2Isabelle
  imports Main
begin

section \<open>JavaScript numbers and the JSON-RPC probe\<close>

text \<open>
  A height is a JavaScript \<^verbatim>\<open>number\<close> obtained from \<^verbatim>\<open>parseInt(.., 16)\<close>: \<^verbatim>\<open>NaN\<close>,
  a double whose value is an integer, or an infinity. \<open>Num n\<close> stands for the double of
  value \<open>n\<close> (negative zero is \<open>Num 0\<close>: the code only compares heights and tests their
  truthiness, where the two zeros agree). The comparisons are the ones of the language:
  every comparison with \<^verbatim>\<open>NaN\<close> is false.
\<close>

datatype jsnum = NaN | Num int | PosInfinity | NegInfinity

fun js_eq :: "jsnum \<Rightarrow> jsnum \<Rightarrow> bool" where
  "js_eq (Num a) (Num b) = (a = b)"
| "js_eq PosInfinity PosInfinity = True"
| "js_eq NegInfinity NegInfinity = True"
| "js_eq _ _ = False"

fun js_gt :: "jsnum \<Rightarrow> jsnum \<Rightarrow> bool" where
  "js_gt (Num a) (Num b) = (b < a)"
| "js_gt PosInfinity (Num b) = True"
| "js_gt PosInfinity NegInfinity = True"
| "js_gt (Num a) NegInfinity = True"
| "js_gt _ _ = False"

fun js_ge :: "jsnum \<Rightarrow> jsnum \<Rightarrow> bool" where
  "js_ge (Num a) (Num b) = (b \<le> a)"
| "js_ge NaN _ = False"
| "js_ge _ NaN = False"
| "js_ge PosInfinity _ = True"
| "js_ge _ NegInfinity = True"
| "js_ge _ _ = False"

fun js_truthy :: "jsnum \<Rightarrow> bool" where
  "js_truthy (Num a) = (a \<noteq> 0)"
| "js_truthy NaN = False"
| "js_truthy PosInfinity = True"
| "js_truthy NegInfinity = True"

text \<open>
  \<^verbatim>\<open>parseInt(s, 16)\<close>: leading white space is dropped, then an optional sign, then an
  optional \<^verbatim>\<open>0x\<close> prefix; the longest run of hexadecimal digits is read, and an empty
  run gives \<^verbatim>\<open>NaN\<close>; otherwise the result is the double nearest to the signed value.
  A string is a list of code units below 256; among these the language counts as white
  space the tab, the line feed, the vertical tab, the form feed, the carriage return,
  the space and the no-break space.
\<close>

definition hexDigit :: "char \<Rightarrow> nat option" where
  "hexDigit c = (let n = (of_char c :: nat) in
     if 48 \<le> n \<and> n \<le> 57 then Some (n - 48)
     else if 97 \<le> n \<and> n \<le> 102 then Some (n - 87)
     else if 65 \<le> n \<and> n \<le> 70 then Some (n - 55)
     else None)"

definition isWhiteSpace :: "char \<Rightarrow> bool" where
  "isWhiteSpace c = ((of_char c :: nat) \<in> {9, 10, 11, 12, 13, 32, 160})"

fun hexRun :: "string \<Rightarrow> nat list" where
  "hexRun [] = []"
| "hexRun (c # cs) = (case hexDigit c of None \<Rightarrow> [] | Some d \<Rightarrow> d # hexRun cs)"

definition hexValue :: "nat list \<Rightarrow> nat" where
  "hexValue ds = foldl (\<lambda>acc d. 16 * acc + d) 0 ds"

text \<open>
  The number of bits of the value of a digit run: leading zero digits do not count, the
  first other digit counts for 1 to 4 bits and every digit after it for 4.
\<close>

definition hexBitLength :: "nat list \<Rightarrow> nat" where
  "hexBitLength ds =
     (case dropWhile (\<lambda>d. d = 0) ds of
        [] \<Rightarrow> 0
      | d # rest \<Rightarrow>
          (if 8 \<le> d then 4 else if 4 \<le> d then 3 else if 2 \<le> d then 2 else 1)
          + 4 * length rest)"

text \<open>
  The double nearest to a natural number \<open>n\<close> of \<open>bits\<close> bits, ties going to the even
  significand: \<open>n\<close> itself up to 53 bits; beyond, \<open>n\<close> is cut to its 53 leading bits
  \<open>q\<close> and rounded by the \<open>k\<close> bits \<open>r\<close> cut off. The result has \<open>k + 53\<close> bits, or
  \<open>k + 54\<close> when the rounding carries to \<open>2^53 = 9007199254740992\<close>; with more than 1024
  bits (\<open>2^1024\<close> or more) it is infinite, given as \<open>None\<close>.
\<close>

definition roundToDouble :: "nat \<Rightarrow> nat \<Rightarrow> nat option" where
  "roundToDouble bits n =
     (if bits \<le> 53 then Some n
      else (let k = bits - 53;
                q = n div 2 ^ k;
                r = n mod 2 ^ k;
                half = 2 ^ (k - 1);
                q' = (if half < r \<or> (r = half \<and> odd q) then q + 1 else q)
            in if (if q' = 9007199254740992 then k + 54 else k + 53) \<le> 1024
               then Some (q' * 2 ^ k) else None))"

definition toNumber :: "int \<Rightarrow> nat list \<Rightarrow> jsnum" where
  "toNumber sign ds =
     (case roundToDouble (hexBitLength ds) (hexValue ds) of
        Some m \<Rightarrow> Num (sign * int m)
      | None \<Rightarrow> if sign < 0 then NegInfinity else PosInfinity)"

definition stripSign :: "string \<Rightarrow> int \<times> string" where
  "stripSign s = (case s of
       [] \<Rightarrow> (1, [])
     | c # cs \<Rightarrow> if c = CHR ''-'' then (- 1, cs)
                else if c = CHR ''+'' then (1, cs)
                else (1, s))"

definition stripPrefix :: "string \<Rightarrow> string" where
  "stripPrefix s = (case s of
       a # b # rest \<Rightarrow>
         if a = CHR ''0'' \<and> (b = CHR ''x'' \<or> b = CHR ''X'') then rest else s
     | _ \<Rightarrow> s)"

definition parseInt16 :: "string \<Rightarrow> jsnum" where
  "parseInt16 s =
     (let (sign, s1) = stripSign (dropWhile isWhiteSpace s);
          ds = hexRun (stripPrefix s1)
      in if ds = [] then NaN else toNumber sign ds)"

text \<open>
  The value of \<^verbatim>\<open>data.result\<close>: the field is absent (\<^verbatim>\<open>undefined\<close>) or holds a
  string. \<^verbatim>\<open>parseInt\<close> first converts its argument to a string, so \<^verbatim>\<open>undefined\<close>
  is parsed as the text ``undefined''.
\<close>

definition toStringResult :: "string option \<Rightarrow> string" where
  "toStringResult r = (case r of None \<Rightarrow> ''undefined'' | Some s \<Rightarrow> s)"

text \<open>
  What one \<^verbatim>\<open>fetch\<close> of an endpoint can give: the call throws (network error, abort
  on timeout), or a response arrives with its \<^verbatim>\<open>ok\<close> flag and a body. The body does
  not parse as JSON (\<^verbatim>\<open>res.json()\<close> throws), is the JSON value \<^verbatim>\<open>null\<close> (reading a
  field of it throws), or is an object whose \<^verbatim>\<open>result\<close> field is absent or a string.
\<close>

datatype json_body = Unparsable | NullBody | ObjectBody "string option"

datatype http_response = FetchThrows | Response bool json_body

text \<open>\<^verbatim>\<open>fetchBlockHeight\<close> of \<^verbatim>\<open>src/lib/api.ts\<close>.\<close>

definition fetchBlockHeight :: "http_response \<Rightarrow> jsnum" where
  "fetchBlockHeight res = (case res of
       FetchThrows \<Rightarrow> Num 0
     | Response ok body \<Rightarrow>
         if \<not> ok then Num 0
         else (case body of
                 Unparsable \<Rightarrow> Num 0
               | NullBody \<Rightarrow> Num 0
               | ObjectBody r \<Rightarrow> parseInt16 (toStringResult r)))"

text \<open>
  \<^verbatim>\<open>checkRpcHealth\<close> of the server-side monitor: it does not look at \<^verbatim>\<open>res.ok\<close>, and
  it guards the parse with the truthiness of \<^verbatim>\<open>data.result\<close> (an absent field and the
  empty string are falsy).
\<close>

definition checkRpcHealth :: "http_response \<Rightarrow> jsnum" where
  "checkRpcHealth res = (case res of
       FetchThrows \<Rightarrow> Num 0
     | Response ok body \<Rightarrow>
         (case body of
            Unparsable \<Rightarrow> Num 0
          | NullBody \<Rightarrow> Num 0
          | ObjectBody r \<Rightarrow>
              (case r of
                 None \<Rightarrow> Num 0
               | Some s \<Rightarrow> if s = [] then Num 0 else parseInt16 s)))"

section \<open>Stale detection per endpoint\<close>

record RpcHeightRecord =
  height :: jsnum
  staleCount :: nat

type_synonym rpcHeights = "string \<rightharpoonup> RpcHeightRecord"

text \<open>\<^verbatim>\<open>isRpcHealthy\<close>: the verdict and the updated map \<^verbatim>\<open>rpcHeights\<close>.\<close>

definition isRpcHealthy :: "string \<Rightarrow> jsnum \<Rightarrow> rpcHeights \<Rightarrow> bool \<times> rpcHeights" where
  "isRpcHealthy url currentHeight hs =
     (if js_eq currentHeight (Num 0) then (False, hs)
      else (case hs url of
              None \<Rightarrow> (True, hs(url \<mapsto> \<lparr>height = currentHeight, staleCount = 0\<rparr>))
            | Some prev \<Rightarrow>
                if js_gt currentHeight (height prev)
                then (True, hs(url \<mapsto> \<lparr>height = currentHeight, staleCount = 0\<rparr>))
                else (let newStaleCount = staleCount prev + 1
                      in (newStaleCount < 2,
                          hs(url \<mapsto> \<lparr>height = currentHeight, staleCount = newStaleCount\<rparr>)))))"

text \<open>
  A sequence of probes of one endpoint: after each probe, the verdict and the record
  then stored for the endpoint.
\<close>

fun probeAll :: "string \<Rightarrow> jsnum list \<Rightarrow> rpcHeights \<Rightarrow> (bool \<times> RpcHeightRecord option) list" where
  "probeAll url [] hs = []"
| "probeAll url (h # rest) hs =
     (let (ok, hs') = isRpcHealthy url h hs
      in (ok, hs' url) # probeAll url rest hs')"

section \<open>All-offline detection\<close>

datatype network = Mainnet | Testnet

record AllOfflineState =
  isOffline :: bool
  since :: "int option"
  alertSent :: bool

text \<open>
  The payload handed to \<^verbatim>\<open>sendRpcAlert\<close> for an \<^verbatim>\<open>all_offline\<close> event: the endpoints,
  the network, the downtime in whole minutes and the answer of the chain-progress check.
\<close>

record AllOfflineAlert =
  rpcUrls :: "string list"
  alertNetwork :: network
  downtime :: int
  chainProgressing :: bool

text \<open>
  The loop of \<^verbatim>\<open>runRpcHealthCheck\<close> over the endpoints of one network: each endpoint is
  probed and classified in order, and the healthy ones are counted. A tick supplies the
  response each endpoint gives.
\<close>

fun countHealthy :: "(string \<times> http_response) list \<Rightarrow> rpcHeights \<Rightarrow> nat \<times> rpcHeights" where
  "countHealthy [] hs = (0, hs)"
| "countHealthy ((url, res) # rest) hs =
     (let (ok, hs1) = isRpcHealthy url (checkRpcHealth res) hs;
          (n, hs2) = countHealthy rest hs1
      in ((if ok then 1 else 0) + n, hs2))"

text \<open>
  The all-offline block that follows the loop. The clock is read twice: \<open>newDate\<close> is
  what \<^verbatim>\<open>new Date()\<close> gives when the episode opens, \<open>dateNow\<close> what \<^verbatim>\<open>Date.now()\<close>
  gives for the downtime, both in milliseconds; the downtime is \<^verbatim>\<open>Math.floor\<close> of
  the difference divided by 1000 and by 60. \<open>progress\<close> is the answer the
  chain-progress check would give. The result is the new state and the alert sent, if any.
\<close>

definition checkAllOffline ::
  "network \<Rightarrow> string list \<Rightarrow> nat \<Rightarrow> int \<Rightarrow> int \<Rightarrow> bool \<Rightarrow> AllOfflineState
     \<Rightarrow> AllOfflineState \<times> AllOfflineAlert option" where
  "checkAllOffline net urls healthy newDate dateNow progress st =
     (if healthy = 0 \<and> length urls > 0 then
        (let st1 = (if \<not> isOffline st
                    then \<lparr>isOffline = True, since = Some newDate, alertSent = False\<rparr>
                    else st);
             mins = (case since st1 of
                       Some t \<Rightarrow> (dateNow - t) div 60000
                     | None \<Rightarrow> 0)
         in if mins \<ge> 3 \<and> \<not> alertSent st1
            then (st1\<lparr>alertSent := True\<rparr>,
                  Some \<lparr>rpcUrls = urls, alertNetwork = net, downtime = mins,
                        chainProgressing = progress\<rparr>)
            else (st1, None))
      else if healthy > 0 then
        (\<lparr>isOffline = False, since = None, alertSent = False\<rparr>, None)
      else (st, None))"

text \<open>
  One tick of the monitor for one network: the response of each endpoint (by its
  position in the list), the two clock readings and the chain-progress answer.
\<close>

record Tick =
  responses :: "nat \<Rightarrow> http_response"
  newDate :: int
  dateNow :: int
  progress :: bool

record MonitorState =
  heights :: rpcHeights
  offline :: AllOfflineState

text \<open>
  \<^verbatim>\<open>runRpcHealthCheck\<close> for one network (the source repeats the same block for mainnet
  and testnet). Without a cached configuration the check returns at once. The result
  is the new state, the number of healthy endpoints and the alert sent, if any.
\<close>

definition runRpcHealthCheck ::
  "bool \<Rightarrow> network \<Rightarrow> string list \<Rightarrow> Tick \<Rightarrow> MonitorState
     \<Rightarrow> MonitorState \<times> nat \<times> AllOfflineAlert option" where
  "runRpcHealthCheck hasConfig net urls tick st =
     (if \<not> hasConfig then (st, 0, None)
      else (let (healthy, hs) =
                  countHealthy (map (\<lambda>i. (urls ! i, responses tick i)) [0..<length urls])
                    (heights st);
                (off, alert) = checkAllOffline net urls healthy (newDate tick) (dateNow tick)
                                 (progress tick) (offline st)
            in (\<lparr>heights = hs, offline = off\<rparr>, healthy, alert)))"

text \<open>A run of ticks: per tick, the number of healthy endpoints and the alert sent.\<close>

fun runTicks ::
  "network \<Rightarrow> string list \<Rightarrow> Tick list \<Rightarrow> MonitorState \<Rightarrow> (nat \<times> AllOfflineAlert option) list" where
  "runTicks net urls [] st = []"
| "runTicks net urls (tick # rest) st =
     (let (st', healthy, alert) = runRpcHealthCheck True net urls tick st
      in (healthy, alert) # runTicks net urls rest st')"

text \<open>The state the monitor is in after a run of ticks.\<close>

fun stateAfter :: "network \<Rightarrow> string list \<Rightarrow> Tick list \<Rightarrow> MonitorState \<Rightarrow> MonitorState" where
  "stateAfter net urls [] st = st"
| "stateAfter net urls (tick # rest) st =
     stateAfter net urls rest (fst (runRpcHealthCheck True net urls tick st))"

section \<open>Missed-block tracking\<close>

datatype block_status = Finalized | Timeout

record HistoryEvent =
  evRound :: int
  evHeight :: "int option"
  evStatus :: block_status

record ValidatorBlockState =
  lastRound :: int
  lastStatus :: block_status
  consecutiveMisses :: nat
  alertedForMiss :: bool

datatype alert_type = Missed | Recovered

text \<open>
  \<^verbatim>\<open>AlertPayload\<close> of \<^verbatim>\<open>src/lib/alerts.ts\<close>; the two optional fields are absent
  (\<open>None\<close>) where the caller does not set them.
\<close>

record AlertPayload =
  pValidator :: string
  pNetwork :: network
  pHeight :: "int option"
  pRound :: int
  pType :: alert_type
  pConsecutiveMisses :: "nat option"
  pPreviousStreak :: "nat option"

text \<open>The calls made to the notification backends, with their arguments.\<close>

datatype backend_call =
    TelegramAlert string string AlertPayload
  | DiscordAlert string AlertPayload
  | PagerDutyAlert string AlertPayload

text \<open>The \<^verbatim>\<open>event_action\<close> that \<^verbatim>\<open>sendPagerDutyAlert\<close> derives from the payload.\<close>

datatype pd_action = Trigger | Resolve

definition pagerDutyAction :: "AlertPayload \<Rightarrow> pd_action" where
  "pagerDutyAction payload = (if pType payload = Missed then Trigger else Resolve)"

record CachedConfig =
  cfgTelegram :: "(string \<times> string) option"
  cfgDiscord :: "string option"

definition networkName :: "network \<Rightarrow> string" where
  "networkName n = (case n of Mainnet \<Rightarrow> ''mainnet'' | Testnet \<Rightarrow> ''testnet'')"

text \<open>The map key \<^verbatim>\<open>`${validator}-${network}`\<close>.\<close>

definition getKey :: "string \<Rightarrow> network \<Rightarrow> string" where
  "getKey validator net = validator @ ''-'' @ networkName net"

text \<open>
  What the history request gives: the call throws, the response is not \<^verbatim>\<open>ok\<close>, or a
  body arrives with its \<^verbatim>\<open>success\<close> flag and its \<^verbatim>\<open>history\<close> (absent, or a list,
  newest entry first).
\<close>

datatype history_fetch =
    HistoryThrows
  | HistoryNotOk
  | HistoryBody bool "HistoryEvent list option"

text \<open>The Telegram and Discord calls of the monitor, each made only if configured.\<close>

definition sendConfigured :: "CachedConfig \<Rightarrow> AlertPayload \<Rightarrow> backend_call list" where
  "sendConfigured cfg payload =
     (case cfgTelegram cfg of
        Some (botToken, chatId) \<Rightarrow> [TelegramAlert botToken chatId payload]
      | None \<Rightarrow> [])
     @ (case cfgDiscord cfg of
          Some webhookUrl \<Rightarrow> [DiscordAlert webhookUrl payload]
        | None \<Rightarrow> [])"

type_synonym validatorBlockStates = "string \<rightharpoonup> ValidatorBlockState"

text \<open>
  \<^verbatim>\<open>checkValidatorMissedBlocks\<close>: the new map \<^verbatim>\<open>validatorBlockStates\<close>, the event
  payload built by the branch taken (if any) and the backend calls made with it.
\<close>

definition checkValidatorMissedBlocks ::
  "CachedConfig option \<Rightarrow> string \<Rightarrow> network \<Rightarrow> string \<Rightarrow> history_fetch
     \<Rightarrow> validatorBlockStates
     \<Rightarrow> validatorBlockStates \<times> AlertPayload option \<times> backend_call list" where
  "checkValidatorMissedBlocks cachedConfig validatorId net validatorName fetched states =
     (case cachedConfig of
        None \<Rightarrow> (states, None, [])
      | Some cfg \<Rightarrow>
        (case fetched of
           HistoryThrows \<Rightarrow> (states, None, [])
         | HistoryNotOk \<Rightarrow> (states, None, [])
         | HistoryBody success history \<Rightarrow>
           (case history of
              None \<Rightarrow> (states, None, [])
            | Some [] \<Rightarrow> (states, None, [])
            | Some (latestBlock # older) \<Rightarrow>
              if \<not> success then (states, None, [])
              else
                (let key = getKey validatorId net in
                 case states key of
                   None \<Rightarrow>
                     (states(key \<mapsto>
                        \<lparr>lastRound = evRound latestBlock,
                         lastStatus = evStatus latestBlock,
                         consecutiveMisses = (if evStatus latestBlock = Timeout then 1 else 0),
                         alertedForMiss = False\<rparr>),
                      None, [])
                 | Some prevState \<Rightarrow>
                     if evRound latestBlock = lastRound prevState then (states, None, [])
                     else if evStatus latestBlock = Timeout then
                       (let newMisses = consecutiveMisses prevState + 1;
                            payload = \<lparr>pValidator = validatorName, pNetwork = net,
                                       pHeight = evHeight latestBlock,
                                       pRound = evRound latestBlock, pType = Missed,
                                       pConsecutiveMisses = Some newMisses,
                                       pPreviousStreak = None\<rparr>
                        in (states(key \<mapsto>
                              \<lparr>lastRound = evRound latestBlock, lastStatus = Timeout,
                               consecutiveMisses = newMisses, alertedForMiss = True\<rparr>),
                            Some payload, sendConfigured cfg payload))
                     else
                       (let hadMisses = (consecutiveMisses prevState > 0
                                          \<and> alertedForMiss prevState);
                            states' = states(key \<mapsto>
                              \<lparr>lastRound = evRound latestBlock, lastStatus = Finalized,
                               consecutiveMisses = 0, alertedForMiss = False\<rparr>)
                        in if hadMisses then
                             (let payload = \<lparr>pValidator = validatorName, pNetwork = net,
                                             pHeight = evHeight latestBlock,
                                             pRound = evRound latestBlock, pType = Recovered,
                                             pConsecutiveMisses = None,
                                             pPreviousStreak =
                                               Some (consecutiveMisses prevState)\<rparr>
                              in (states', Some payload, sendConfigured cfg payload))
                           else (states', None, []))))))"

text \<open>
  Successive polls of one validator; each poll finds the given entry as the latest one
  of a successful history response. Per poll: the event payload and the backend calls.
\<close>

fun observe ::
  "CachedConfig \<Rightarrow> string \<Rightarrow> network \<Rightarrow> string \<Rightarrow> HistoryEvent list \<Rightarrow> validatorBlockStates
     \<Rightarrow> (AlertPayload option \<times> backend_call list) list \<times> validatorBlockStates" where
  "observe cfg validatorId net validatorName [] states = ([], states)"
| "observe cfg validatorId net validatorName (e # es) states =
     (let (states1, ev, calls) =
            checkValidatorMissedBlocks (Some cfg) validatorId net validatorName
              (HistoryBody True (Some [e])) states;
          (out, states2) = observe cfg validatorId net validatorName es states1
      in ((ev, calls) # out, states2))"

section \<open>Failover between ranked endpoints\<close>

record FailoverState =
  activeIndex :: nat
  lastHeight :: jsnum
  issueCount :: nat
  failoverAlertSent :: bool

datatype failover_reason = Offline | Stale jsnum

text \<open>The alerts posted by the dashboard, with the names of the two endpoints.\<close>

datatype rpc_alert =
    RpcFailover network string string failover_reason
  | RpcRecovered network string string

text \<open>Reading a field of \<^verbatim>\<open>rpcConfigs[i]\<close> with \<open>i\<close> out of range throws.\<close>

datatype js_error = TypeError

definition FAILOVER_THRESHOLD :: nat where
  "FAILOVER_THRESHOLD = 30"

text \<open>
  The candidate loop of \<^verbatim>\<open>fetchCurrentHeight\<close>, for the offsets \<open>i\<close> still to try:
  the first candidate with a valid height, and that height. \<open>resp\<close> is the response
  each endpoint (by index) gives during this poll; \<open>isValidFallback\<close> is the test the
  loop applies to a candidate's height, given the height \<open>h\<close> of the active endpoint.
\<close>

definition isValidFallback :: "jsnum \<Rightarrow> jsnum \<Rightarrow> bool" where
  "isValidFallback h fallbackHeight =
     (if js_eq h (Num 0) then js_gt fallbackHeight (Num 0)
      else js_gt fallbackHeight (Num 0) \<and> js_gt fallbackHeight h)"

fun scanFallbacks ::
  "nat \<Rightarrow> nat \<Rightarrow> (nat \<Rightarrow> http_response) \<Rightarrow> jsnum \<Rightarrow> nat list \<Rightarrow> (nat \<times> jsnum) option" where
  "scanFallbacks n active resp h [] = None"
| "scanFallbacks n active resp h (i # rest) =
     (let nextIndex = (active + i) mod n;
          fallbackHeight = fetchBlockHeight (resp nextIndex)
      in if isValidFallback h fallbackHeight then Some (nextIndex, fallbackHeight)
         else scanFallbacks n active resp h rest)"

text \<open>
  \<^verbatim>\<open>fetchCurrentHeight\<close> for one network. \<open>rpcConfigs\<close> are the endpoints as
  (url, name) in rank order. The result is the new state, the height returned and the
  alerts posted; the active index and the three refs are threaded as one state.
\<close>

definition fetchCurrentHeight ::
  "network \<Rightarrow> (string \<times> string) list \<Rightarrow> (nat \<Rightarrow> http_response) \<Rightarrow> FailoverState
     \<Rightarrow> js_error + (FailoverState \<times> jsnum \<times> rpc_alert list)" where
  "fetchCurrentHeight net rpcConfigs resp st =
     (let n = length rpcConfigs in
      if n = 0 then Inr (st, Num 0, [])
      else if activeIndex st \<ge> n then Inl TypeError
      else
        (let h = fetchBlockHeight (resp (activeIndex st));
             hasIssue = (js_eq h (Num 0) \<or> js_eq h (lastHeight st))
         in if hasIssue then
              (let st1 = st\<lparr>issueCount := issueCount st + 1\<rparr> in
               if issueCount st1 < FAILOVER_THRESHOLD
               then Inr (st1, (if js_truthy (lastHeight st) then lastHeight st else h), [])
               else
                 (let reason = (if js_eq h (Num 0) then Offline else Stale h) in
                  case scanFallbacks n (activeIndex st) resp h [1..<n] of
                    Some (nextIndex, fallbackHeight) \<Rightarrow>
                      Inr (st1\<lparr>activeIndex := nextIndex, lastHeight := fallbackHeight,
                               issueCount := 0, failoverAlertSent := True\<rparr>,
                           fallbackHeight,
                           (if \<not> failoverAlertSent st
                            then [RpcFailover net (snd (rpcConfigs ! activeIndex st))
                                    (snd (rpcConfigs ! nextIndex)) reason]
                            else []))
                  | None \<Rightarrow>
                      Inr (st1, (if js_eq h (Num 0) then lastHeight st else h), [])))
            else
              Inr (st\<lparr>issueCount := 0, lastHeight := h,
                      failoverAlertSent :=
                        (if activeIndex st = 0 then False else failoverAlertSent st)\<rparr>,
                   h, [])))"

text \<open>\<^verbatim>\<open>checkPrimaryRecovery\<close> for one network.\<close>

definition checkPrimaryRecovery ::
  "network \<Rightarrow> (string \<times> string) list \<Rightarrow> (nat \<Rightarrow> http_response) \<Rightarrow> FailoverState
     \<Rightarrow> js_error + (FailoverState \<times> rpc_alert list)" where
  "checkPrimaryRecovery net rpcConfigs resp st =
     (if activeIndex st \<noteq> 0 \<and> length rpcConfigs > 0 then
        (let primaryHeight = fetchBlockHeight (resp 0) in
         if js_gt primaryHeight (Num 0) \<and> js_gt primaryHeight (lastHeight st) then
           (if activeIndex st \<ge> length rpcConfigs then Inl TypeError
            else Inr (st\<lparr>activeIndex := 0, lastHeight := primaryHeight,
                         issueCount := 0, failoverAlertSent := False\<rparr>,
                      [RpcRecovered net (snd (rpcConfigs ! activeIndex st))
                         (snd (rpcConfigs ! 0))]))
         else Inr (st, []))
      else Inr (st, []))"

text \<open>
  The two timers of the dashboard as one sequence of actions: a height poll or a
  primary-recovery check, each with the responses the endpoints give at that moment.
  A throwing action leaves the state as it was.
\<close>

datatype action = Poll "nat \<Rightarrow> http_response" | RecoveryCheck "nat \<Rightarrow> http_response"

definition step :: "network \<Rightarrow> (string \<times> string) list \<Rightarrow> action \<Rightarrow> FailoverState \<Rightarrow> FailoverState" where
  "step net rpcConfigs a st =
     (case a of
        Poll resp \<Rightarrow>
          (case fetchCurrentHeight net rpcConfigs resp st of
             Inl e \<Rightarrow> st | Inr (st', h, alerts) \<Rightarrow> st')
      | RecoveryCheck resp \<Rightarrow>
          (case checkPrimaryRecovery net rpcConfigs resp st of
             Inl e \<Rightarrow> st | Inr (st', alerts) \<Rightarrow> st'))"

fun steps :: "network \<Rightarrow> (string \<times> string) list \<Rightarrow> action list \<Rightarrow> FailoverState \<Rightarrow> FailoverState" where
  "steps net rpcConfigs [] st = st"
| "steps net rpcConfigs (a # rest) st = steps net rpcConfigs rest (step net rpcConfigs a st)"

text \<open>
  Successive polls: per poll, the active index after it and the height it returned
  (a throwing poll gives \<open>None\<close> and leaves the state as it was).
\<close>

fun polls ::
  "network \<Rightarrow> (string \<times> string) list \<Rightarrow> (nat \<Rightarrow> http_response) list \<Rightarrow> FailoverState
     \<Rightarrow> (nat \<times> jsnum) option list" where
  "polls net rpcConfigs [] st = []"
| "polls net rpcConfigs (resp # rest) st =
     (case fetchCurrentHeight net rpcConfigs resp st of
        Inl e \<Rightarrow> None # polls net rpcConfigs rest st
      | Inr (st', h, alerts) \<Rightarrow> Some (activeIndex st', h) # polls net rpcConfigs rest st')"

section \<open>Alert dispatch\<close>

record AlertManagerConfig =
  amTelegram :: "(string \<times> string) option"
  amDiscord :: "string option"
  amPagerduty :: "(string \<times> jsnum) option"

record AlertManagerState =
  amConsecutiveMisses :: "string \<rightharpoonup> nat"
  amPagerdutyTriggered :: "string \<rightharpoonup> bool"

text \<open>\<^verbatim>\<open>map.get(key) || 0\<close> and the truthiness of \<^verbatim>\<open>map.get(key)\<close>.\<close>

definition getOrZero :: "(string \<rightharpoonup> nat) \<Rightarrow> string \<Rightarrow> nat" where
  "getOrZero m key = (case m key of None \<Rightarrow> 0 | Some v \<Rightarrow> v)"

definition isTriggered :: "(string \<rightharpoonup> bool) \<Rightarrow> string \<Rightarrow> bool" where
  "isTriggered m key = (case m key of None \<Rightarrow> False | Some b \<Rightarrow> b)"

text \<open>\<^verbatim>\<open>AlertManager.handleMissedBlock\<close>: the new state and the backend calls, in order.\<close>

definition handleMissedBlock ::
  "AlertManagerConfig \<Rightarrow> string \<Rightarrow> network \<Rightarrow> int option \<Rightarrow> int \<Rightarrow> AlertManagerState
     \<Rightarrow> AlertManagerState \<times> backend_call list" where
  "handleMissedBlock config validator net h rnd st =
     (let key = getKey validator net;
          misses = getOrZero (amConsecutiveMisses st) key + 1;
          st1 = st\<lparr>amConsecutiveMisses := (amConsecutiveMisses st)(key \<mapsto> misses)\<rparr>;
          payload = \<lparr>pValidator = validator, pNetwork = net, pHeight = h, pRound = rnd,
                     pType = Missed, pConsecutiveMisses = Some misses,
                     pPreviousStreak = None\<rparr>;
          tg = (case amTelegram config of
                  Some (botToken, chatId) \<Rightarrow> [TelegramAlert botToken chatId payload]
                | None \<Rightarrow> []);
          dc = (case amDiscord config of
                  Some webhookUrl \<Rightarrow> [DiscordAlert webhookUrl payload]
                | None \<Rightarrow> [])
      in case amPagerduty config of
           Some (routingKey, threshold) \<Rightarrow>
             if js_ge (Num (int misses)) threshold
                \<and> \<not> isTriggered (amPagerdutyTriggered st1) key
             then (st1\<lparr>amPagerdutyTriggered := (amPagerdutyTriggered st1)(key \<mapsto> True)\<rparr>,
                   tg @ dc @ [PagerDutyAlert routingKey payload])
             else (st1, tg @ dc)
         | None \<Rightarrow> (st1, tg @ dc))"

text \<open>\<^verbatim>\<open>AlertManager.handleRecovery\<close>.\<close>

definition handleRecovery ::
  "AlertManagerConfig \<Rightarrow> string \<Rightarrow> network \<Rightarrow> int option \<Rightarrow> int \<Rightarrow> AlertManagerState
     \<Rightarrow> AlertManagerState \<times> backend_call list" where
  "handleRecovery config validator net h rnd st =
     (let key = getKey validator net;
          hadMisses = (getOrZero (amConsecutiveMisses st) key > 0)
      in if hadMisses then
           (let previousStreak = getOrZero (amConsecutiveMisses st) key;
                st1 = st\<lparr>amConsecutiveMisses := (amConsecutiveMisses st)(key \<mapsto> 0)\<rparr>;
                payload = \<lparr>pValidator = validator, pNetwork = net, pHeight = h, pRound = rnd,
                           pType = Recovered, pConsecutiveMisses = None,
                           pPreviousStreak = Some previousStreak\<rparr>
            in case amPagerduty config of
                 Some (routingKey, threshold) \<Rightarrow>
                   if isTriggered (amPagerdutyTriggered st1) key
                   then (st1\<lparr>amPagerdutyTriggered :=
                               (amPagerdutyTriggered st1)(key \<mapsto> False)\<rparr>,
                         [PagerDutyAlert routingKey payload])
                   else (st1, [])
               | None \<Rightarrow> (st1, []))
         else (st, []))"

text \<open>
  A sequence of events handed to the manager for one validator and network, each with
  the given height and round.
\<close>

fun handleAll ::
  "AlertManagerConfig \<Rightarrow> string \<Rightarrow> network \<Rightarrow> int option \<Rightarrow> int \<Rightarrow> alert_type list
     \<Rightarrow> AlertManagerState \<Rightarrow> backend_call list list \<times> AlertManagerState" where
  "handleAll config validator net h rnd [] st = ([], st)"
| "handleAll config validator net h rnd (t # ts) st =
     (let (st1, calls) =
            (if t = Missed then handleMissedBlock config validator net h rnd st
             else handleRecovery config validator net h rnd st);
          (out, st2) = handleAll config validator net h rnd ts st1
      in (calls # out, st2))"

section \<open>The alert endpoint\<close>

record ValidatorAlertRequest =
  rqValidator :: string
  rqNetwork :: network
  rqHeight :: int
  rqRound :: int
  rqType :: alert_type
  rqConsecutiveMisses :: "nat option"

datatype rpc_alert_type = Rpc_failover | Rpc_recovered

record RpcAlertRequest =
  rpcType :: rpc_alert_type
  rpcNetwork :: network
  fromRpc :: string
  toRpc :: string
  reason :: "string option"

datatype AlertRequest = ValidatorAlert ValidatorAlertRequest | RpcAlert RpcAlertRequest

text \<open>
  The environment the handler reads. A variable is unset (\<open>None\<close>) or a string, and
  counts as configured when it is a non-empty string. \<open>envThreshold\<close> is the number
  \<^verbatim>\<open>parseInt(process.env.PAGERDUTY_THRESHOLD || "5", 10)\<close>.
\<close>

record Env =
  envTelegramToken :: "string option"
  envTelegramChat :: "string option"
  envDiscordWebhook :: "string option"
  envPagerdutyKey :: "string option"
  envThreshold :: jsnum

definition envValue :: "string option \<Rightarrow> string option" where
  "envValue v = (case v of None \<Rightarrow> None | Some s \<Rightarrow> if s = [] then None else Some s)"

text \<open>The module-level maps of the route.\<close>

record RouteState =
  rtConsecutiveMisses :: "string \<rightharpoonup> nat"
  rtPagerdutyTriggered :: "string \<rightharpoonup> bool"

text \<open>
  The calls the route makes: the three senders of \<^verbatim>\<open>src/lib/alerts.ts\<close> for a
  validator alert, and a plain message to Telegram and to Discord for an RPC alert.
\<close>

datatype route_call =
    Backend backend_call
  | TelegramMessage string string RpcAlertRequest
  | DiscordMessage string RpcAlertRequest

text \<open>\<^verbatim>\<open>POST\<close> of \<^verbatim>\<open>src/app/api/alert/route.ts\<close>: the new maps and the calls, in order.\<close>

definition POST :: "Env \<Rightarrow> AlertRequest \<Rightarrow> RouteState \<Rightarrow> RouteState \<times> route_call list" where
  "POST env body st =
     (case body of
        RpcAlert rpcData \<Rightarrow>
          (st,
           (case (envValue (envTelegramToken env), envValue (envTelegramChat env)) of
              (Some telegramToken, Some telegramChat) \<Rightarrow>
                [TelegramMessage telegramToken telegramChat rpcData]
            | _ \<Rightarrow> [])
           @ (case envValue (envDiscordWebhook env) of
                Some discordWebhook \<Rightarrow> [DiscordMessage discordWebhook rpcData]
              | None \<Rightarrow> []))
      | ValidatorAlert validatorData \<Rightarrow>
          (let key = getKey (rqValidator validatorData) (rqNetwork validatorData);
               current = getOrZero (rtConsecutiveMisses st) key + 1;
               st1 = (if rqType validatorData = Missed
                      then st\<lparr>rtConsecutiveMisses := (rtConsecutiveMisses st)(key \<mapsto> current)\<rparr>
                      else st\<lparr>rtConsecutiveMisses := (rtConsecutiveMisses st)(key \<mapsto> 0)\<rparr>);
               misses = (if rqType validatorData = Missed then Some current
                         else rqConsecutiveMisses validatorData);
               payload = \<lparr>pValidator = rqValidator validatorData,
                          pNetwork = rqNetwork validatorData,
                          pHeight = Some (rqHeight validatorData),
                          pRound = rqRound validatorData,
                          pType = rqType validatorData,
                          pConsecutiveMisses = misses,
                          pPreviousStreak = None\<rparr>;
               tg = (case (envValue (envTelegramToken env), envValue (envTelegramChat env)) of
                       (Some telegramToken, Some telegramChat) \<Rightarrow>
                         [Backend (TelegramAlert telegramToken telegramChat payload)]
                     | _ \<Rightarrow> []);
               dc = (case envValue (envDiscordWebhook env) of
                       Some discordWebhook \<Rightarrow> [Backend (DiscordAlert discordWebhook payload)]
                     | None \<Rightarrow> [])
           in case envValue (envPagerdutyKey env) of
                Some pagerdutyKey \<Rightarrow>
                  if rqType validatorData = Missed
                     \<and> js_ge (Num (int (case misses of None \<Rightarrow> 0 | Some m \<Rightarrow> m)))
                          (envThreshold env)
                  then (if \<not> isTriggered (rtPagerdutyTriggered st1) key
                        then (st1\<lparr>rtPagerdutyTriggered :=
                                    (rtPagerdutyTriggered st1)(key \<mapsto> True)\<rparr>,
                              tg @ dc @ [Backend (PagerDutyAlert pagerdutyKey payload)])
                        else (st1, tg @ dc))
                  else if rqType validatorData = Recovered
                          \<and> isTriggered (rtPagerdutyTriggered st1) key
                  then (st1\<lparr>rtPagerdutyTriggered :=
                              (rtPagerdutyTriggered st1)(key \<mapsto> False)\<rparr>,
                        tg @ dc @ [Backend (PagerDutyAlert pagerdutyKey payload)])
                  else (st1, tg @ dc)
              | None \<Rightarrow> (st1, tg @ dc)))"

text \<open>
  A sequence of validator alerts posted for one validator and network, each with the
  given height and round.
\<close>

fun postAll ::
  "Env \<Rightarrow> string \<Rightarrow> network \<Rightarrow> int \<Rightarrow> int \<Rightarrow> alert_type list \<Rightarrow> RouteState
     \<Rightarrow> route_call list list \<times> RouteState" where
  "postAll env validator net h rnd [] st = ([], st)"
| "postAll env validator net h rnd (t # ts) st =
     (let (st1, calls) =
            POST env (ValidatorAlert \<lparr>rqValidator = validator, rqNetwork = net, rqHeight = h,
                                     rqRound = rnd, rqType = t,
                                     rqConsecutiveMisses = None\<rparr>) st;
          (out, st2) = postAll env validator net h rnd ts st1
      in (calls # out, st2))"

text \<open>The PagerDuty actions among a list of calls.\<close>

fun pagerDutyCalls :: "backend_call list \<Rightarrow> pd_action list" where
  "pagerDutyCalls [] = []"
| "pagerDutyCalls (PagerDutyAlert k payload # cs) = pagerDutyAction payload # pagerDutyCalls cs"
| "pagerDutyCalls (c # cs) = pagerDutyCalls cs"

fun routePagerDutyCalls :: "route_call list \<Rightarrow> pd_action list" where
  "routePagerDutyCalls [] = []"
| "routePagerDutyCalls (Backend (PagerDutyAlert k payload) # cs) =
     pagerDutyAction payload # routePagerDutyCalls cs"
| "routePagerDutyCalls (c # cs) = routePagerDutyCalls cs"

section \<open>Properties of the probe and of stale detection\<close>

lemma parseInt16_undefined: "parseInt16 ''undefined'' = NaN"
  by (simp add: parseInt16_def stripSign_def stripPrefix_def isWhiteSpace_def hexDigit_def)

lemma isRpcHealthy_zero: "js_eq h (Num 0) \<Longrightarrow> isRpcHealthy url h hs = (False, hs)"
  by (simp add: isRpcHealthy_def)

lemma isRpcHealthy_first:
  "\<not> js_eq h (Num 0) \<Longrightarrow> hs url = None \<Longrightarrow>
   isRpcHealthy url h hs = (True, hs(url \<mapsto> \<lparr>height = h, staleCount = 0\<rparr>))"
  by (simp add: isRpcHealthy_def)

lemma isRpcHealthy_increase:
  "\<not> js_eq h (Num 0) \<Longrightarrow> hs url = Some prev \<Longrightarrow> js_gt h (height prev) \<Longrightarrow>
   isRpcHealthy url h hs = (True, hs(url \<mapsto> \<lparr>height = h, staleCount = 0\<rparr>))"
  by (simp add: isRpcHealthy_def)

lemma isRpcHealthy_stale:
  "\<not> js_eq h (Num 0) \<Longrightarrow> hs url = Some prev \<Longrightarrow> \<not> js_gt h (height prev) \<Longrightarrow>
   isRpcHealthy url h hs =
     (staleCount prev + 1 < 2, hs(url \<mapsto> \<lparr>height = h, staleCount = staleCount prev + 1\<rparr>))"
  by (simp add: isRpcHealthy_def Let_def)

lemma js_gt_irrefl: "\<not> js_gt h h"
  by (cases h) simp_all

lemma js_gt_trans: "js_gt a b \<Longrightarrow> js_gt b c \<Longrightarrow> js_gt a c"
  by (cases a; cases b; cases c) simp_all

lemma probeAll_increasing:
  "sorted_wrt (\<lambda>a b. js_gt b a) xs \<Longrightarrow>
   \<forall>h \<in> set xs. \<not> js_eq h (Num 0) \<Longrightarrow>
   hs url = None \<or> (\<exists>prev. hs url = Some prev \<and> (\<forall>h \<in> set xs. js_gt h (height prev))) \<Longrightarrow>
   probeAll url xs hs = map (\<lambda>h. (True, Some \<lparr>height = h, staleCount = 0\<rparr>)) xs"
proof (induction xs arbitrary: hs)
  case Nil
  then show ?case by simp
next
  case (Cons x xs)
  have nz: "\<not> js_eq x (Num 0)" using Cons.prems(2) by simp
  have step: "isRpcHealthy url x hs = (True, hs(url \<mapsto> \<lparr>height = x, staleCount = 0\<rparr>))"
  proof (cases "hs url")
    case None
    then show ?thesis using nz by (simp add: isRpcHealthy_first)
  next
    case (Some prev)
    with Cons.prems(3) have "js_gt x (height prev)" by auto
    with nz Some show ?thesis by (simp add: isRpcHealthy_increase)
  qed
  let ?hs' = "hs(url \<mapsto> \<lparr>height = x, staleCount = 0\<rparr>)"
  have sorted: "sorted_wrt (\<lambda>a b. js_gt b a) xs" using Cons.prems(1) by simp
  have all_nz: "\<forall>h \<in> set xs. \<not> js_eq h (Num 0)" using Cons.prems(2) by simp
  have above: "\<forall>h \<in> set xs. js_gt h x" using Cons.prems(1) by simp
  have "probeAll url xs ?hs' = map (\<lambda>h. (True, Some \<lparr>height = h, staleCount = 0\<rparr>)) xs"
    by (rule Cons.IH[OF sorted all_nz]) (simp add: above)
  then show ?case using step by simp
qed

text \<open>
  C5. A successful response whose body has no \<^verbatim>\<open>result\<close> field: the server-side
  \<^verbatim>\<open>checkRpcHealth\<close> gives height 0, as for a timeout, but \<^verbatim>\<open>fetchBlockHeight\<close> of
  the dashboard gives \<^verbatim>\<open>NaN\<close>.
\<close>

theorem fetchBlockHeight_missing_result:
  "fetchBlockHeight (Response True (ObjectBody None)) = NaN
   \<and> checkRpcHealth (Response True (ObjectBody None)) = Num 0
   \<and> fetchBlockHeight FetchThrows = Num 0"
  by (simp add: fetchBlockHeight_def checkRpcHealth_def toStringResult_def parseInt16_undefined)

text \<open>
  C1, as stated, fails: on a fresh endpoint, two consecutive probes returning the same
  non-zero height leave it healthy with \<open>staleCount = 1\<close>.
\<close>

theorem two_equal_probes_counterexample:
  "probeAll ''rpc'' [Num 5, Num 5] Map.empty =
     [(True, Some \<lparr>height = Num 5, staleCount = 0\<rparr>),
      (True, Some \<lparr>height = Num 5, staleCount = 1\<rparr>)]"
  by (simp add: isRpcHealthy_def)

text \<open>
  C1, amended. A first or height-increasing probe of a non-zero height \<open>h\<close> followed by
  two more probes returning \<open>h\<close> leaves the endpoint unhealthy with \<open>staleCount = 2\<close>
  (after the first repeat it is still healthy, with \<open>staleCount = 1\<close>). For an endpoint
  whose probed heights are non-zero, strictly increasing and above the height recorded
  so far (if any), every probe classifies it healthy and leaves \<open>staleCount = 0\<close>.
\<close>

theorem stale_classification:
  "(\<not> js_eq h (Num 0)
      \<and> (hs url = None \<or> (\<exists>prev. hs url = Some prev \<and> js_gt h (height prev)))
    \<longrightarrow> probeAll url [h, h, h] hs =
          [(True, Some \<lparr>height = h, staleCount = 0\<rparr>),
           (True, Some \<lparr>height = h, staleCount = 1\<rparr>),
           (False, Some \<lparr>height = h, staleCount = 2\<rparr>)])
   \<and> (sorted_wrt (\<lambda>a b. js_gt b a) xs
      \<and> (\<forall>x \<in> set xs. \<not> js_eq x (Num 0))
      \<and> (hs url = None \<or> (\<exists>prev. hs url = Some prev \<and> (\<forall>x \<in> set xs. js_gt x (height prev))))
    \<longrightarrow> probeAll url xs hs = map (\<lambda>x. (True, Some \<lparr>height = x, staleCount = 0\<rparr>)) xs)"
proof (intro conjI impI)
  assume a: "\<not> js_eq h (Num 0)
      \<and> (hs url = None \<or> (\<exists>prev. hs url = Some prev \<and> js_gt h (height prev)))"
  then show "probeAll url [h, h, h] hs =
          [(True, Some \<lparr>height = h, staleCount = 0\<rparr>),
           (True, Some \<lparr>height = h, staleCount = 1\<rparr>),
           (False, Some \<lparr>height = h, staleCount = 2\<rparr>)]"
    by (auto simp: isRpcHealthy_def js_gt_irrefl Let_def)
next
  assume "sorted_wrt (\<lambda>a b. js_gt b a) xs
      \<and> (\<forall>x \<in> set xs. \<not> js_eq x (Num 0))
      \<and> (hs url = None \<or> (\<exists>prev. hs url = Some prev \<and> (\<forall>x \<in> set xs. js_gt x (height prev))))"
  then show "probeAll url xs hs = map (\<lambda>x. (True, Some \<lparr>height = x, staleCount = 0\<rparr>)) xs"
    by (intro probeAll_increasing) simp_all
qed

theorem stale_classification_witness:
  "probeAll ''rpc'' [Num 7, Num 7, Num 7] Map.empty =
     [(True, Some \<lparr>height = Num 7, staleCount = 0\<rparr>),
      (True, Some \<lparr>height = Num 7, staleCount = 1\<rparr>),
      (False, Some \<lparr>height = Num 7, staleCount = 2\<rparr>)]
   \<and> probeAll ''rpc'' [Num 7, Num 8, Num 10] Map.empty =
     [(True, Some \<lparr>height = Num 7, staleCount = 0\<rparr>),
      (True, Some \<lparr>height = Num 8, staleCount = 0\<rparr>),
      (True, Some \<lparr>height = Num 10, staleCount = 0\<rparr>)]"
  using stale_classification[of "Num 7" Map.empty "''rpc''" "[Num 7, Num 8, Num 10]"]
  by simp

text \<open>
  C6, as stated, fails: a probe returning height 0 does not touch the record.
\<close>

theorem zero_probe_counterexample:
  "snd (isRpcHealthy ''rpc'' (Num 0) [''rpc'' \<mapsto> \<lparr>height = Num 5, staleCount = 1\<rparr>]) ''rpc''
     = Some \<lparr>height = Num 5, staleCount = 1\<rparr>"
  by (simp add: isRpcHealthy_def)

text \<open>
  C6, amended. For an endpoint with an existing record, a probe returning height 0
  leaves the whole map unchanged; every other probe records the new height, resets
  \<open>staleCount\<close> to 0 exactly when the new height strictly exceeds the previous one, and
  otherwise increments it by 1. No other endpoint's record changes.
\<close>

theorem record_update:
  assumes "hs url = Some prev"
  shows "(js_eq h (Num 0) \<longrightarrow> snd (isRpcHealthy url h hs) = hs)
       \<and> (\<not> js_eq h (Num 0) \<longrightarrow>
            (\<exists>r. snd (isRpcHealthy url h hs) url = Some r
               \<and> height r = h
               \<and> (staleCount r = 0 \<longleftrightarrow> js_gt h (height prev))
               \<and> (\<not> js_gt h (height prev) \<longrightarrow> staleCount r = staleCount prev + 1)))
       \<and> (\<forall>other. other \<noteq> url \<longrightarrow> snd (isRpcHealthy url h hs) other = hs other)"
  using assms by (simp add: isRpcHealthy_def Let_def)

theorem record_update_witness:
  "snd (isRpcHealthy ''rpc'' (Num 5) [''rpc'' \<mapsto> \<lparr>height = Num 5, staleCount = 1\<rparr>]) ''rpc''
     = Some \<lparr>height = Num 5, staleCount = 2\<rparr>
   \<and> snd (isRpcHealthy ''rpc'' (Num 6) [''rpc'' \<mapsto> \<lparr>height = Num 5, staleCount = 1\<rparr>]) ''rpc''
     = Some \<lparr>height = Num 6, staleCount = 0\<rparr>"
proof -
  let ?hs = "[''rpc'' \<mapsto> \<lparr>height = Num 5, staleCount = 1\<rparr>]"
  have h: "?hs ''rpc'' = Some \<lparr>height = Num 5, staleCount = 1\<rparr>" by simp
  from record_update[of ?hs "''rpc''" "\<lparr>height = Num 5, staleCount = 1\<rparr>" "Num 5", OF h]
  obtain r where r: "snd (isRpcHealthy ''rpc'' (Num 5) ?hs) ''rpc'' = Some r"
      "height r = Num 5" "staleCount r = 2"
    by auto
  from record_update[of ?hs "''rpc''" "\<lparr>height = Num 5, staleCount = 1\<rparr>" "Num 6", OF h]
  obtain q where q: "snd (isRpcHealthy ''rpc'' (Num 6) ?hs) ''rpc'' = Some q"
      "height q = Num 6" "staleCount q = 0"
    by auto
  show ?thesis using r q by simp
qed

section \<open>Properties of alert dispatch\<close>

lemma handleMissedBlock_view:
  assumes "amPagerduty config = Some (rk, Num 5)"
  shows "getOrZero (amConsecutiveMisses (fst (handleMissedBlock config v net h r st))) (getKey v net)
           = getOrZero (amConsecutiveMisses st) (getKey v net) + 1"
    and "isTriggered (amPagerdutyTriggered (fst (handleMissedBlock config v net h r st))) (getKey v net)
           = (isTriggered (amPagerdutyTriggered st) (getKey v net)
              \<or> 5 \<le> getOrZero (amConsecutiveMisses st) (getKey v net) + 1)"
    and "pagerDutyCalls (snd (handleMissedBlock config v net h r st))
           = (if 5 \<le> getOrZero (amConsecutiveMisses st) (getKey v net) + 1
                 \<and> \<not> isTriggered (amPagerdutyTriggered st) (getKey v net)
              then [Trigger] else [])"
  using assms
  by (auto simp: handleMissedBlock_def Let_def getOrZero_def isTriggered_def pagerDutyAction_def
           split: option.splits)

lemma handleRecovery_view:
  assumes "amPagerduty config = Some (rk, Num 5)"
    and "0 < getOrZero (amConsecutiveMisses st) (getKey v net)"
  shows "getOrZero (amConsecutiveMisses (fst (handleRecovery config v net h r st))) (getKey v net) = 0"
    and "\<not> isTriggered (amPagerdutyTriggered (fst (handleRecovery config v net h r st))) (getKey v net)"
    and "pagerDutyCalls (snd (handleRecovery config v net h r st))
           = (if isTriggered (amPagerdutyTriggered st) (getKey v net) then [Resolve] else [])"
  using assms
  by (auto simp: handleRecovery_def Let_def getOrZero_def isTriggered_def pagerDutyAction_def
           split: option.splits)

lemma handleAll_append:
  "handleAll config v net h r (xs @ ys) st =
     (fst (handleAll config v net h r xs st)
        @ fst (handleAll config v net h r ys (snd (handleAll config v net h r xs st))),
      snd (handleAll config v net h r ys (snd (handleAll config v net h r xs st))))"
  by (induction xs arbitrary: st) (simp_all add: split_def Let_def)

lemma handleAll_misses_quiet:
  assumes "amPagerduty config = Some (rk, Num 5)"
  shows "getOrZero (amConsecutiveMisses st) (getKey v net) = k \<Longrightarrow>
     isTriggered (amPagerdutyTriggered st) (getKey v net) = (5 \<le> k) \<Longrightarrow>
     k + n < 5 \<or> 5 \<le> k \<Longrightarrow>
     map pagerDutyCalls (fst (handleAll config v net h r (replicate n Missed) st)) = replicate n []
     \<and> getOrZero (amConsecutiveMisses (snd (handleAll config v net h r (replicate n Missed) st)))
          (getKey v net) = k + n
     \<and> isTriggered (amPagerdutyTriggered (snd (handleAll config v net h r (replicate n Missed) st)))
          (getKey v net) = (5 \<le> k)"
proof (induction n arbitrary: st k)
  case 0
  then show ?case by simp
next
  case (Suc n)
  let ?st1 = "fst (handleMissedBlock config v net h r st)"
  have m: "getOrZero (amConsecutiveMisses ?st1) (getKey v net) = k + 1"
    using handleMissedBlock_view(1)[OF assms] Suc.prems(1) by simp
  have t: "isTriggered (amPagerdutyTriggered ?st1) (getKey v net) = (5 \<le> k + 1)"
    using handleMissedBlock_view(2)[OF assms, of v net h r st] Suc.prems by auto
  have c: "pagerDutyCalls (snd (handleMissedBlock config v net h r st)) = []"
    using handleMissedBlock_view(3)[OF assms, of v net h r st] Suc.prems by auto
  have range: "(k + 1) + n < 5 \<or> 5 \<le> k + 1" using Suc.prems(3) by auto
  have same: "(5 \<le> k + 1) = (5 \<le> k)" using Suc.prems(3) by auto
  from Suc.IH[OF m t range] c same show ?case
    by (simp add: split_def Let_def)
qed


lemma handleAll_escalation:
  assumes cfg: "amPagerduty config = Some (rk, Num 5)"
    and m0: "getOrZero (amConsecutiveMisses st) (getKey v net) = 0"
    and t0: "\<not> isTriggered (amPagerdutyTriggered st) (getKey v net)"
    and n: "5 \<le> n" and m: "m < 5"
  shows "map pagerDutyCalls
           (fst (handleAll config v net h r (replicate n Missed @ [Recovered] @ replicate m Missed) st))
         = replicate 4 [] @ [[Trigger]] @ replicate (n - 5) [] @ [[Resolve]] @ replicate m []"
    and "\<not> isTriggered
           (amPagerdutyTriggered (snd (handleAll config v net h r (replicate n Missed @ [Recovered]) st)))
           (getKey v net)"
proof -
  let ?key = "getKey v net"
  let ?run = "\<lambda>es s. handleAll config v net h r es s"
  have split_n: "replicate n Missed = replicate 4 Missed @ [Missed] @ replicate (n - 5) Missed"
  proof -
    have "n = 4 + (1 + (n - 5))" using n by simp
    then have "replicate n Missed = replicate (4 + (1 + (n - 5))) Missed" by simp
    also have "\<dots> = replicate 4 Missed @ [Missed] @ replicate (n - 5) Missed"
      by (simp only: replicate_add) simp
    finally show ?thesis .
  qed
  \<comment> \<open>misses 1 to 4\<close>
  let ?s4 = "snd (?run (replicate 4 Missed) st)"
  have a: "map pagerDutyCalls (fst (?run (replicate 4 Missed) st)) = replicate 4 []"
      "getOrZero (amConsecutiveMisses ?s4) ?key = 4"
      "\<not> isTriggered (amPagerdutyTriggered ?s4) ?key"
    using handleAll_misses_quiet[OF cfg, of st v net 0 4] m0 t0 by simp_all
  \<comment> \<open>the fifth miss\<close>
  let ?s5 = "fst (handleMissedBlock config v net h r ?s4)"
  have b: "pagerDutyCalls (snd (handleMissedBlock config v net h r ?s4)) = [Trigger]"
      "getOrZero (amConsecutiveMisses ?s5) ?key = 5"
      "isTriggered (amPagerdutyTriggered ?s5) ?key"
    using handleMissedBlock_view[OF cfg, of v net h r ?s4] a by simp_all
  have b': "?run [Missed] ?s4 = ([snd (handleMissedBlock config v net h r ?s4)], ?s5)"
    by (simp add: split_def Let_def)
  \<comment> \<open>further misses\<close>
  let ?sn = "snd (?run (replicate (n - 5) Missed) ?s5)"
  have c: "map pagerDutyCalls (fst (?run (replicate (n - 5) Missed) ?s5)) = replicate (n - 5) []"
      "getOrZero (amConsecutiveMisses ?sn) ?key = 5 + (n - 5)"
      "isTriggered (amPagerdutyTriggered ?sn) ?key"
    using handleAll_misses_quiet[OF cfg, of ?s5 v net 5 "n - 5"] b by simp_all
  \<comment> \<open>the recovery\<close>
  let ?sr = "fst (handleRecovery config v net h r ?sn)"
  have pos: "0 < getOrZero (amConsecutiveMisses ?sn) ?key" using c(2) by simp
  have d: "pagerDutyCalls (snd (handleRecovery config v net h r ?sn)) = [Resolve]"
      "getOrZero (amConsecutiveMisses ?sr) ?key = 0"
      "\<not> isTriggered (amPagerdutyTriggered ?sr) ?key"
    using handleRecovery_view[OF cfg pos, of h r] c(3) by simp_all
  have d': "?run [Recovered] ?sn = ([snd (handleRecovery config v net h r ?sn)], ?sr)"
    by (simp add: split_def Let_def)
  \<comment> \<open>misses below the threshold after the reset\<close>
  have e: "map pagerDutyCalls (fst (?run (replicate m Missed) ?sr)) = replicate m []"
    using handleAll_misses_quiet[OF cfg, of ?sr v net 0 m] d m by simp
  have sn: "snd (?run (replicate n Missed) st) = ?sn"
    by (simp only: split_n handleAll_append b' snd_conv)
  have fn: "map pagerDutyCalls (fst (?run (replicate n Missed) st))
              = replicate 4 [] @ [[Trigger]] @ replicate (n - 5) []"
    by (simp only: split_n handleAll_append b' fst_conv snd_conv map_append a(1) c(1))
       (simp add: b(1))
  show "map pagerDutyCalls
           (fst (?run (replicate n Missed @ [Recovered] @ replicate m Missed) st))
         = replicate 4 [] @ [[Trigger]] @ replicate (n - 5) [] @ [[Resolve]] @ replicate m []"
    by (simp only: handleAll_append[of config v net h r "replicate n Missed"]
          handleAll_append[of config v net h r "[Recovered]"] fst_conv snd_conv map_append sn fn d' e)
       (simp add: d(1))
  show "\<not> isTriggered
           (amPagerdutyTriggered (snd (?run (replicate n Missed @ [Recovered]) st)))
           (getKey v net)"
    by (simp only: handleAll_append[of config v net h r "replicate n Missed"] snd_conv sn d')
       (rule d(3))
qed


lemma POST_missed_view:
  assumes "envValue (envPagerdutyKey env) = Some rk" and "envThreshold env = Num 5"
    and "rqType rq = Missed"
  shows "getOrZero (rtConsecutiveMisses (fst (POST env (ValidatorAlert rq) st)))
             (getKey (rqValidator rq) (rqNetwork rq))
           = getOrZero (rtConsecutiveMisses st) (getKey (rqValidator rq) (rqNetwork rq)) + 1"
    and "isTriggered (rtPagerdutyTriggered (fst (POST env (ValidatorAlert rq) st)))
             (getKey (rqValidator rq) (rqNetwork rq))
           = (isTriggered (rtPagerdutyTriggered st) (getKey (rqValidator rq) (rqNetwork rq))
              \<or> 5 \<le> getOrZero (rtConsecutiveMisses st) (getKey (rqValidator rq) (rqNetwork rq)) + 1)"
    and "routePagerDutyCalls (snd (POST env (ValidatorAlert rq) st))
           = (if 5 \<le> getOrZero (rtConsecutiveMisses st) (getKey (rqValidator rq) (rqNetwork rq)) + 1
                 \<and> \<not> isTriggered (rtPagerdutyTriggered st) (getKey (rqValidator rq) (rqNetwork rq))
              then [Trigger] else [])"
  using assms
  by (auto simp: POST_def Let_def getOrZero_def isTriggered_def pagerDutyAction_def
           split: option.splits)

lemma POST_recovered_view:
  assumes "envValue (envPagerdutyKey env) = Some rk" and "envThreshold env = Num 5"
    and "rqType rq = Recovered"
  shows "getOrZero (rtConsecutiveMisses (fst (POST env (ValidatorAlert rq) st)))
             (getKey (rqValidator rq) (rqNetwork rq)) = 0"
    and "\<not> isTriggered (rtPagerdutyTriggered (fst (POST env (ValidatorAlert rq) st)))
             (getKey (rqValidator rq) (rqNetwork rq))"
    and "routePagerDutyCalls (snd (POST env (ValidatorAlert rq) st))
           = (if isTriggered (rtPagerdutyTriggered st) (getKey (rqValidator rq) (rqNetwork rq))
              then [Resolve] else [])"
  using assms
  by (auto simp: POST_def Let_def getOrZero_def isTriggered_def pagerDutyAction_def
           split: option.splits)


lemma postAll_append:
  "postAll env v net h r (xs @ ys) st =
     (fst (postAll env v net h r xs st)
        @ fst (postAll env v net h r ys (snd (postAll env v net h r xs st))),
      snd (postAll env v net h r ys (snd (postAll env v net h r xs st))))"
  by (induction xs arbitrary: st) (simp_all add: split_def Let_def)

lemma postAll_single:
  "postAll env v net h r [t] st =
     ([snd (POST env (ValidatorAlert \<lparr>rqValidator = v, rqNetwork = net, rqHeight = h, rqRound = r, rqType = t, rqConsecutiveMisses = None\<rparr>) st)], fst (POST env (ValidatorAlert \<lparr>rqValidator = v, rqNetwork = net, rqHeight = h, rqRound = r, rqType = t, rqConsecutiveMisses = None\<rparr>) st))"
  by (simp add: split_def Let_def)

lemma postAll_misses_quiet:
  assumes "envValue (envPagerdutyKey env) = Some rk" and "envThreshold env = Num 5"
  shows "getOrZero (rtConsecutiveMisses st) (getKey v net) = k \<Longrightarrow>
     isTriggered (rtPagerdutyTriggered st) (getKey v net) = (5 \<le> k) \<Longrightarrow>
     k + n < 5 \<or> 5 \<le> k \<Longrightarrow>
     map routePagerDutyCalls (fst (postAll env v net h r (replicate n Missed) st)) = replicate n []
     \<and> getOrZero (rtConsecutiveMisses (snd (postAll env v net h r (replicate n Missed) st)))
          (getKey v net) = k + n
     \<and> isTriggered (rtPagerdutyTriggered (snd (postAll env v net h r (replicate n Missed) st)))
          (getKey v net) = (5 \<le> k)"
proof (induction n arbitrary: st k)
  case 0
  then show ?case by simp
next
  case (Suc n)
  let ?rq = "\<lparr>rqValidator = v, rqNetwork = net, rqHeight = h, rqRound = r, rqType = Missed,
              rqConsecutiveMisses = None\<rparr>"
  let ?st1 = "fst (POST env (ValidatorAlert ?rq) st)"
  have ty: "rqType ?rq = Missed" by simp
  note view = POST_missed_view[OF assms ty, of st, simplified]
  have m: "getOrZero (rtConsecutiveMisses ?st1) (getKey v net) = k + 1"
    using view(1) Suc.prems(1) by simp
  have t: "isTriggered (rtPagerdutyTriggered ?st1) (getKey v net) = (5 \<le> k + 1)"
    using view(2) Suc.prems by auto
  have c: "routePagerDutyCalls (snd (POST env (ValidatorAlert ?rq) st)) = []"
    using view(3) Suc.prems by auto
  have range: "(k + 1) + n < 5 \<or> 5 \<le> k + 1" using Suc.prems(3) by auto
  have same: "(5 \<le> k + 1) = (5 \<le> k)" using Suc.prems(3) by auto
  from Suc.IH[OF m t range] c same show ?case
    by (simp add: split_def Let_def)
qed

lemma postAll_escalation:
  assumes key: "envValue (envPagerdutyKey env) = Some rk" and thr: "envThreshold env = Num 5"
    and m0: "getOrZero (rtConsecutiveMisses st) (getKey v net) = 0"
    and t0: "\<not> isTriggered (rtPagerdutyTriggered st) (getKey v net)"
    and n: "5 \<le> n" and m: "m < 5"
  shows "map routePagerDutyCalls
           (fst (postAll env v net h r (replicate n Missed @ [Recovered] @ replicate m Missed) st))
         = replicate 4 [] @ [[Trigger]] @ replicate (n - 5) [] @ [[Resolve]] @ replicate m []"
    and "\<not> isTriggered
           (rtPagerdutyTriggered (snd (postAll env v net h r (replicate n Missed @ [Recovered]) st)))
           (getKey v net)"
proof -
  let ?key = "getKey v net"
  let ?run = "\<lambda>es s. postAll env v net h r es s"
  let ?miss = "\<lparr>rqValidator = v, rqNetwork = net, rqHeight = h, rqRound = r, rqType = Missed,
              rqConsecutiveMisses = None\<rparr>"
  let ?rec = "\<lparr>rqValidator = v, rqNetwork = net, rqHeight = h, rqRound = r, rqType = Recovered,
              rqConsecutiveMisses = None\<rparr>"
  have tym: "rqType ?miss = Missed" and tyr: "rqType ?rec = Recovered" by simp_all
  have split_n: "replicate n Missed = replicate 4 Missed @ [Missed] @ replicate (n - 5) Missed"
  proof -
    have "n = 4 + (1 + (n - 5))" using n by simp
    then have "replicate n Missed = replicate (4 + (1 + (n - 5))) Missed" by simp
    also have "\<dots> = replicate 4 Missed @ [Missed] @ replicate (n - 5) Missed"
      by (simp only: replicate_add) simp
    finally show ?thesis .
  qed
  let ?s4 = "snd (?run (replicate 4 Missed) st)"
  have a: "map routePagerDutyCalls (fst (?run (replicate 4 Missed) st)) = replicate 4 []"
      "getOrZero (rtConsecutiveMisses ?s4) ?key = 4"
      "\<not> isTriggered (rtPagerdutyTriggered ?s4) ?key"
    using postAll_misses_quiet[OF key thr, of st v net 0 4] m0 t0 by simp_all
  let ?s5 = "fst (POST env (ValidatorAlert ?miss) ?s4)"
  have b: "routePagerDutyCalls (snd (POST env (ValidatorAlert ?miss) ?s4)) = [Trigger]"
      "getOrZero (rtConsecutiveMisses ?s5) ?key = 5"
      "isTriggered (rtPagerdutyTriggered ?s5) ?key"
    using POST_missed_view[OF key thr tym, of ?s4, simplified] a by simp_all
  let ?sn = "snd (?run (replicate (n - 5) Missed) ?s5)"
  have c: "map routePagerDutyCalls (fst (?run (replicate (n - 5) Missed) ?s5))
             = replicate (n - 5) []"
      "getOrZero (rtConsecutiveMisses ?sn) ?key = 5 + (n - 5)"
      "isTriggered (rtPagerdutyTriggered ?sn) ?key"
    using postAll_misses_quiet[OF key thr, of ?s5 v net 5 "n - 5"] b by simp_all
  let ?sr = "fst (POST env (ValidatorAlert ?rec) ?sn)"
  have d: "routePagerDutyCalls (snd (POST env (ValidatorAlert ?rec) ?sn)) = [Resolve]"
      "getOrZero (rtConsecutiveMisses ?sr) ?key = 0"
      "\<not> isTriggered (rtPagerdutyTriggered ?sr) ?key"
    using POST_recovered_view[OF key thr tyr, of ?sn, simplified] c(3) by simp_all
  have e: "map routePagerDutyCalls (fst (?run (replicate m Missed) ?sr)) = replicate m []"
    using postAll_misses_quiet[OF key thr, of ?sr v net 0 m] d m by simp
  have sn: "snd (?run (replicate n Missed) st) = ?sn"
    by (simp only: split_n postAll_append postAll_single snd_conv)
  have fn: "map routePagerDutyCalls (fst (?run (replicate n Missed) st))
              = replicate 4 [] @ [[Trigger]] @ replicate (n - 5) []"
    by (simp only: split_n postAll_append postAll_single fst_conv snd_conv map_append a(1) c(1))
       (simp add: b(1))
  show "map routePagerDutyCalls
           (fst (?run (replicate n Missed @ [Recovered] @ replicate m Missed) st))
         = replicate 4 [] @ [[Trigger]] @ replicate (n - 5) [] @ [[Resolve]] @ replicate m []"
    by (simp only: postAll_append[of env v net h r "replicate n Missed"]
          postAll_append[of env v net h r "[Recovered]"] postAll_single
          fst_conv snd_conv map_append sn fn e)
       (simp add: d(1))
  show "\<not> isTriggered
           (rtPagerdutyTriggered (snd (?run (replicate n Missed @ [Recovered]) st)))
           (getKey v net)"
    by (simp only: postAll_append[of env v net h r "replicate n Missed"] snd_conv sn postAll_single)
       (rule d(3))
qed


text \<open>
  C8. With PagerDuty configured at threshold 5 and a key with no recorded misses and no
  open incident, both the manager and the alert endpoint behave alike: misses 1 to 4
  make no PagerDuty call, the 5th makes exactly one \<open>trigger\<close> call, later misses of
  the same streak make none, the recovery that follows makes exactly one \<open>resolve\<close>
  call and clears the guard, and fewer than 5 misses after that make no call.
\<close>

theorem pagerduty_escalation:
  assumes "amPagerduty config = Some (rk, Num 5)"
    and "envValue (envPagerdutyKey env) = Some rk'"
    and "envThreshold env = Num 5"
    and "getOrZero (amConsecutiveMisses st) (getKey v net) = 0"
    and "\<not> isTriggered (amPagerdutyTriggered st) (getKey v net)"
    and "getOrZero (rtConsecutiveMisses rs) (getKey v net) = 0"
    and "\<not> isTriggered (rtPagerdutyTriggered rs) (getKey v net)"
    and "5 \<le> n" and "m < 5"
  shows "map pagerDutyCalls
           (fst (handleAll config v net h r (replicate n Missed @ [Recovered] @ replicate m Missed) st))
         = replicate 4 [] @ [[Trigger]] @ replicate (n - 5) [] @ [[Resolve]] @ replicate m []
       \<and> isTriggered
           (amPagerdutyTriggered (snd (handleAll config v net h r (replicate n Missed @ [Recovered]) st)))
           (getKey v net) = False
       \<and> map routePagerDutyCalls
           (fst (postAll env v net h' r' (replicate n Missed @ [Recovered] @ replicate m Missed) rs))
         = replicate 4 [] @ [[Trigger]] @ replicate (n - 5) [] @ [[Resolve]] @ replicate m []
       \<and> isTriggered
           (rtPagerdutyTriggered (snd (postAll env v net h' r' (replicate n Missed @ [Recovered]) rs)))
           (getKey v net) = False"
  using handleAll_escalation[OF assms(1) assms(4) assms(5) assms(8) assms(9)]
        postAll_escalation[OF assms(2) assms(3) assms(6) assms(7) assms(8) assms(9)]
  by simp

theorem pagerduty_escalation_witness:
  "map pagerDutyCalls
     (fst (handleAll \<lparr>amTelegram = None, amDiscord = None, amPagerduty = Some (''key'', Num 5)\<rparr>
             ''val'' Mainnet (Some 10) 7 (replicate 6 Missed @ [Recovered] @ replicate 4 Missed)
             \<lparr>amConsecutiveMisses = Map.empty, amPagerdutyTriggered = Map.empty\<rparr>))
     = [[], [], [], [], [Trigger], [], [Resolve], [], [], [], []]
   \<and> map routePagerDutyCalls
     (fst (postAll \<lparr>envTelegramToken = None, envTelegramChat = None, envDiscordWebhook = None,
                     envPagerdutyKey = Some ''key'', envThreshold = Num 5\<rparr>
             ''val'' Mainnet 10 7 (replicate 6 Missed @ [Recovered] @ replicate 4 Missed)
             \<lparr>rtConsecutiveMisses = Map.empty, rtPagerdutyTriggered = Map.empty\<rparr>))
     = [[], [], [], [], [Trigger], [], [Resolve], [], [], [], []]"
proof -
  let ?config = "\<lparr>amTelegram = None, amDiscord = None, amPagerduty = Some (''key'', Num 5)\<rparr>"
  let ?env = "\<lparr>envTelegramToken = None, envTelegramChat = None, envDiscordWebhook = None,
               envPagerdutyKey = Some ''key'', envThreshold = Num 5\<rparr>"
  let ?st = "\<lparr>amConsecutiveMisses = Map.empty, amPagerdutyTriggered = Map.empty\<rparr>"
  let ?rs = "\<lparr>rtConsecutiveMisses = Map.empty, rtPagerdutyTriggered = Map.empty\<rparr>"
  have h: "amPagerduty ?config = Some (''key'', Num 5)"
      "envValue (envPagerdutyKey ?env) = Some ''key''"
      "envThreshold ?env = Num 5"
      "getOrZero (amConsecutiveMisses ?st) (getKey ''val'' Mainnet) = 0"
      "\<not> isTriggered (amPagerdutyTriggered ?st) (getKey ''val'' Mainnet)"
      "getOrZero (rtConsecutiveMisses ?rs) (getKey ''val'' Mainnet) = 0"
      "\<not> isTriggered (rtPagerdutyTriggered ?rs) (getKey ''val'' Mainnet)"
      "(5::nat) \<le> 6" "(4::nat) < 5"
    by (simp_all add: envValue_def getOrZero_def isTriggered_def)
  have four: "replicate 4 ([]::pd_action list) = [[], [], [], []]"
    by (simp add: numeral_eq_Suc)
  show ?thesis
    using pagerduty_escalation[OF h] by (simp add: four)
qed

text \<open>
  C10. When the recorded miss count of the key is zero or absent, the manager's recovery
  handler makes no backend call and returns the state as it was: both maps unchanged.
\<close>

theorem handleRecovery_no_misses:
  "getOrZero (amConsecutiveMisses st) (getKey validator net) = 0 \<Longrightarrow>
   handleRecovery config validator net h rnd st = (st, [])"
  by (simp add: handleRecovery_def Let_def)

theorem handleRecovery_no_misses_witness:
  "handleRecovery \<lparr>amTelegram = Some (''token'', ''chat''), amDiscord = Some ''hook'',
                    amPagerduty = Some (''key'', Num 5)\<rparr> ''val'' Testnet (Some 10) 7
     \<lparr>amConsecutiveMisses = [''val-testnet'' \<mapsto> 0], amPagerdutyTriggered = Map.empty\<rparr>
   = (\<lparr>amConsecutiveMisses = [''val-testnet'' \<mapsto> 0], amPagerdutyTriggered = Map.empty\<rparr>, [])"
  by (rule handleRecovery_no_misses) (simp add: getOrZero_def getKey_def networkName_def)

text \<open>
  C4. A recovered event for a validator with two recorded misses, Telegram and Discord
  both configured: the manager's recovery handler makes no call at all, while the alert
  endpoint sends the same event to Telegram and to Discord.
\<close>

theorem handleRecovery_skips_chat_backends:
  "snd (handleRecovery \<lparr>amTelegram = Some (''token'', ''chat''), amDiscord = Some ''hook'',
                         amPagerduty = None\<rparr> ''val'' Mainnet (Some 10) 7
          \<lparr>amConsecutiveMisses = [''val-mainnet'' \<mapsto> 2], amPagerdutyTriggered = Map.empty\<rparr>)
     = []
   \<and> snd (POST \<lparr>envTelegramToken = Some ''token'', envTelegramChat = Some ''chat'',
                 envDiscordWebhook = Some ''hook'', envPagerdutyKey = None,
                 envThreshold = Num 5\<rparr>
            (ValidatorAlert \<lparr>rqValidator = ''val'', rqNetwork = Mainnet, rqHeight = 10,
                             rqRound = 7, rqType = Recovered, rqConsecutiveMisses = None\<rparr>)
            \<lparr>rtConsecutiveMisses = [''val-mainnet'' \<mapsto> 2], rtPagerdutyTriggered = Map.empty\<rparr>)
     = [Backend (TelegramAlert ''token'' ''chat''
          \<lparr>pValidator = ''val'', pNetwork = Mainnet, pHeight = Some 10, pRound = 7,
           pType = Recovered, pConsecutiveMisses = None, pPreviousStreak = None\<rparr>),
        Backend (DiscordAlert ''hook''
          \<lparr>pValidator = ''val'', pNetwork = Mainnet, pHeight = Some 10, pRound = 7,
           pType = Recovered, pConsecutiveMisses = None, pPreviousStreak = None\<rparr>)]"
  by (simp add: handleRecovery_def POST_def Let_def getOrZero_def getKey_def networkName_def
        envValue_def)

section \<open>Properties of missed-block tracking\<close>

lemma checkValidatorMissedBlocks_same_round:
  "states (getKey validatorId net) = Some s \<Longrightarrow> lastRound s = evRound e \<Longrightarrow>
   checkValidatorMissedBlocks (Some cfg) validatorId net name (HistoryBody True (Some (e # older)))
     states = (states, None, [])"
  by (simp add: checkValidatorMissedBlocks_def Let_def)

text \<open>
  C2. For a key the tracker has not seen, the latest entries finalized \<open>r1\<close>, timeout
  \<open>r2\<close>, timeout \<open>r3\<close>, finalized \<open>r4\<close> (each round differing from the one before)
  give: no event at \<open>r1\<close>, a missed event with streak 1 at \<open>r2\<close>, a missed event with
  streak 2 at \<open>r3\<close> and a recovered event with previous streak 2 at \<open>r4\<close>, each sent to
  the configured backends. Observing a latest entry whose round is the one already
  stored gives no event, no call and no change of state.
\<close>

theorem missed_recovered_pairing:
  assumes "states (getKey validatorId net) = None"
    and "r1 \<noteq> r2" and "r2 \<noteq> r3" and "r3 \<noteq> r4"
  shows "fst (observe cfg validatorId net name
            [\<lparr>evRound = r1, evHeight = h1, evStatus = Finalized\<rparr>,
             \<lparr>evRound = r2, evHeight = h2, evStatus = Timeout\<rparr>,
             \<lparr>evRound = r3, evHeight = h3, evStatus = Timeout\<rparr>,
             \<lparr>evRound = r4, evHeight = h4, evStatus = Finalized\<rparr>] states)
         = (let missed2 = \<lparr>pValidator = name, pNetwork = net, pHeight = h2, pRound = r2,
                             pType = Missed, pConsecutiveMisses = Some 1,
                             pPreviousStreak = None\<rparr>;
                missed3 = \<lparr>pValidator = name, pNetwork = net, pHeight = h3, pRound = r3,
                             pType = Missed, pConsecutiveMisses = Some 2,
                             pPreviousStreak = None\<rparr>;
                recovered4 = \<lparr>pValidator = name, pNetwork = net, pHeight = h4, pRound = r4,
                                pType = Recovered, pConsecutiveMisses = None,
                                pPreviousStreak = Some 2\<rparr>
            in [(None, []),
                (Some missed2, sendConfigured cfg missed2),
                (Some missed3, sendConfigured cfg missed3),
                (Some recovered4, sendConfigured cfg recovered4)])
       \<and> (\<forall>e older states'.
            (\<exists>s. states' (getKey validatorId net) = Some s \<and> lastRound s = evRound e) \<longrightarrow>
            checkValidatorMissedBlocks (Some cfg) validatorId net name
              (HistoryBody True (Some (e # older))) states' = (states', None, []))
       \<and> (\<forall>e. observe cfg validatorId net name [e, e] states
              = ([(None, []), (None, [])],
                 snd (observe cfg validatorId net name [e] states)))"
proof (intro conjI allI impI)
  show "fst (observe cfg validatorId net name
            [\<lparr>evRound = r1, evHeight = h1, evStatus = Finalized\<rparr>,
             \<lparr>evRound = r2, evHeight = h2, evStatus = Timeout\<rparr>,
             \<lparr>evRound = r3, evHeight = h3, evStatus = Timeout\<rparr>,
             \<lparr>evRound = r4, evHeight = h4, evStatus = Finalized\<rparr>] states)
         = (let missed2 = \<lparr>pValidator = name, pNetwork = net, pHeight = h2, pRound = r2,
                             pType = Missed, pConsecutiveMisses = Some 1,
                             pPreviousStreak = None\<rparr>;
                missed3 = \<lparr>pValidator = name, pNetwork = net, pHeight = h3, pRound = r3,
                             pType = Missed, pConsecutiveMisses = Some 2,
                             pPreviousStreak = None\<rparr>;
                recovered4 = \<lparr>pValidator = name, pNetwork = net, pHeight = h4, pRound = r4,
                                pType = Recovered, pConsecutiveMisses = None,
                                pPreviousStreak = Some 2\<rparr>
            in [(None, []),
                (Some missed2, sendConfigured cfg missed2),
                (Some missed3, sendConfigured cfg missed3),
                (Some recovered4, sendConfigured cfg recovered4)])"
    using assms by (simp add: checkValidatorMissedBlocks_def Let_def numeral_2_eq_2)
next
  fix e :: HistoryEvent and older :: "HistoryEvent list" and states' :: validatorBlockStates
  assume "\<exists>s. states' (getKey validatorId net) = Some s \<and> lastRound s = evRound e"
  then show "checkValidatorMissedBlocks (Some cfg) validatorId net name
              (HistoryBody True (Some (e # older))) states' = (states', None, [])"
    by (auto simp: checkValidatorMissedBlocks_same_round)
next
  fix e
  show "observe cfg validatorId net name [e, e] states
              = ([(None, []), (None, [])],
                 snd (observe cfg validatorId net name [e] states))"
    using assms(1) by (simp add: checkValidatorMissedBlocks_def Let_def)
qed

theorem missed_recovered_pairing_witness:
  "map fst (fst (observe \<lparr>cfgTelegram = Some (''token'', ''chat''), cfgDiscord = None\<rparr>
            ''7'' Mainnet ''val''
            [\<lparr>evRound = 100, evHeight = Some 90, evStatus = Finalized\<rparr>,
             \<lparr>evRound = 101, evHeight = None, evStatus = Timeout\<rparr>,
             \<lparr>evRound = 102, evHeight = None, evStatus = Timeout\<rparr>,
             \<lparr>evRound = 103, evHeight = Some 91, evStatus = Finalized\<rparr>] Map.empty))
   = [None,
      Some \<lparr>pValidator = ''val'', pNetwork = Mainnet, pHeight = None, pRound = 101,
            pType = Missed, pConsecutiveMisses = Some 1, pPreviousStreak = None\<rparr>,
      Some \<lparr>pValidator = ''val'', pNetwork = Mainnet, pHeight = None, pRound = 102,
            pType = Missed, pConsecutiveMisses = Some 2, pPreviousStreak = None\<rparr>,
      Some \<lparr>pValidator = ''val'', pNetwork = Mainnet, pHeight = Some 91, pRound = 103,
            pType = Recovered, pConsecutiveMisses = None, pPreviousStreak = Some 2\<rparr>]"
proof -
  have h: "Map.empty (getKey ''7'' Mainnet) = (None :: ValidatorBlockState option)"
      "(100::int) \<noteq> 101" "(101::int) \<noteq> 102" "(102::int) \<noteq> 103"
    by simp_all
  show ?thesis
    using missed_recovered_pairing[OF h,
        where cfg = "\<lparr>cfgTelegram = Some (''token'', ''chat''), cfgDiscord = None\<rparr>"
          and name = "''val''" and ?h1.0 = "Some 90" and ?h2.0 = None and ?h3.0 = None
          and ?h4.0 = "Some 91"]
    by (simp add: Let_def)
qed

section \<open>Properties of failover\<close>

lemma scanFallbacks_first:
  "\<forall>j \<in> set pre. \<not> isValidFallback h (fetchBlockHeight (resp ((a + j) mod n))) \<Longrightarrow>
   isValidFallback h (fetchBlockHeight (resp ((a + i) mod n))) \<Longrightarrow>
   scanFallbacks n a resp h (pre @ i # post)
     = Some ((a + i) mod n, fetchBlockHeight (resp ((a + i) mod n)))"
  by (induction pre) (simp_all add: Let_def)

lemma upt_split: "lo \<le> i \<Longrightarrow> i < hi \<Longrightarrow> [lo..<hi] = [lo..<i] @ i # [Suc i..<hi]"
proof -
  assume lo: "lo \<le> i" and hi: "i < hi"
  have "[lo..<i + (hi - i)] = [lo..<i] @ [i..<i + (hi - i)]"
    using lo by (rule upt_add_eq_append)
  moreover have "i + (hi - i) = hi" using hi by simp
  ultimately have "[lo..<hi] = [lo..<i] @ [i..<hi]" by simp
  then show ?thesis using hi by (simp add: upt_conv_Cons)
qed

lemma fetchCurrentHeight_below_threshold:
  assumes "activeIndex st < length rpcConfigs"
    and "fetchBlockHeight (resp (activeIndex st)) = Num 0"
    and "issueCount st + 1 < FAILOVER_THRESHOLD"
  shows "fetchCurrentHeight net rpcConfigs resp st
           = Inr (st\<lparr>issueCount := issueCount st + 1\<rparr>,
                  (if js_truthy (lastHeight st) then lastHeight st else Num 0), [])"
  using assms by (auto simp: fetchCurrentHeight_def Let_def)

lemma fetchCurrentHeight_failover:
  assumes "activeIndex st < length rpcConfigs"
    and "fetchBlockHeight (resp (activeIndex st)) = Num 0"
    and "issueCount st + 1 = FAILOVER_THRESHOLD"
    and "1 \<le> i" and "i < length rpcConfigs"
    and "js_gt (fetchBlockHeight (resp ((activeIndex st + i) mod length rpcConfigs))) (Num 0)"
    and "\<forall>j. 1 \<le> j \<and> j < i \<longrightarrow>
           \<not> js_gt (fetchBlockHeight (resp ((activeIndex st + j) mod length rpcConfigs))) (Num 0)"
  shows "\<exists>st' alerts. fetchCurrentHeight net rpcConfigs resp st
           = Inr (st', fetchBlockHeight (resp ((activeIndex st + i) mod length rpcConfigs)), alerts)
         \<and> activeIndex st' = (activeIndex st + i) mod length rpcConfigs"
proof -
  let ?n = "length rpcConfigs"
  let ?a = "activeIndex st"
  have valid: "isValidFallback (Num 0) (fetchBlockHeight (resp ((?a + i) mod ?n)))"
    using assms(6) by (simp add: isValidFallback_def)
  have before: "\<forall>j \<in> set [1..<i]. \<not> isValidFallback (Num 0) (fetchBlockHeight (resp ((?a + j) mod ?n)))"
    using assms(7) by (simp add: isValidFallback_def)
  have "scanFallbacks ?n ?a resp (Num 0) [1..<?n]
          = Some ((?a + i) mod ?n, fetchBlockHeight (resp ((?a + i) mod ?n)))"
    using scanFallbacks_first[OF before valid] upt_split[OF assms(4) assms(5)] by simp
  moreover have "rpcConfigs \<noteq> []" using assms(1) by auto
  ultimately show ?thesis
    using assms(1,2,3) by (simp add: fetchCurrentHeight_def Let_def)
qed


lemma polls_append:
  "polls net rpcConfigs (xs @ ys) st
     = polls net rpcConfigs xs st
       @ polls net rpcConfigs ys (steps net rpcConfigs (map Poll xs) st)"
  by (induction xs arbitrary: st) (auto simp: step_def split: sum.splits)

lemma polls_below_threshold:
  "activeIndex st < length rpcConfigs \<Longrightarrow>
   \<forall>resp \<in> set resps. fetchBlockHeight (resp (activeIndex st)) = Num 0 \<Longrightarrow>
   issueCount st + length resps < FAILOVER_THRESHOLD \<Longrightarrow>
   steps net rpcConfigs (map Poll resps) st = st\<lparr>issueCount := issueCount st + length resps\<rparr>
   \<and> polls net rpcConfigs resps st
       = replicate (length resps)
           (Some (activeIndex st, (if js_truthy (lastHeight st) then lastHeight st else Num 0)))"
proof (induction resps arbitrary: st)
  case Nil
  then show ?case by simp
next
  case (Cons resp resps)
  let ?st1 = "st\<lparr>issueCount := issueCount st + 1\<rparr>"
  have one: "fetchCurrentHeight net rpcConfigs resp st
           = Inr (?st1, (if js_truthy (lastHeight st) then lastHeight st else Num 0), [])"
    using Cons.prems by (intro fetchCurrentHeight_below_threshold) simp_all
  have "steps net rpcConfigs (map Poll resps) ?st1
          = ?st1\<lparr>issueCount := issueCount ?st1 + length resps\<rparr>
        \<and> polls net rpcConfigs resps ?st1
          = replicate (length resps)
              (Some (activeIndex ?st1,
                 (if js_truthy (lastHeight ?st1) then lastHeight ?st1 else Num 0)))"
    using Cons.prems by (intro Cons.IH) simp_all
  then show ?case using one by (simp add: step_def)
qed

text \<open>
  C3. While the active endpoint answers with height 0, starting from an issue streak of
  0: each of the first 29 polls leaves the active index as it is and returns the last
  known height. On the 30th such poll, if the candidate at offset \<open>i\<close> after the active
  endpoint (wrapping round) reports a positive height and no candidate at a smaller
  offset does, the active index becomes that candidate and its height is returned.
\<close>

theorem failover_threshold:
  assumes "activeIndex st < length rpcConfigs"
    and "issueCount st = 0"
    and "\<forall>resp \<in> set resps. fetchBlockHeight (resp (activeIndex st)) = Num 0"
  shows "(length resps \<le> 29 \<longrightarrow>
            polls net rpcConfigs resps st
              = replicate (length resps)
                  (Some (activeIndex st,
                     (if js_truthy (lastHeight st) then lastHeight st else Num 0))))
       \<and> (length resps = 29
            \<and> fetchBlockHeight (resp30 (activeIndex st)) = Num 0
            \<and> 1 \<le> i \<and> i < length rpcConfigs
            \<and> js_gt (fetchBlockHeight (resp30 ((activeIndex st + i) mod length rpcConfigs))) (Num 0)
            \<and> (\<forall>j. 1 \<le> j \<and> j < i \<longrightarrow>
                  \<not> js_gt (fetchBlockHeight
                             (resp30 ((activeIndex st + j) mod length rpcConfigs))) (Num 0))
          \<longrightarrow>
            polls net rpcConfigs (resps @ [resp30]) st
              = replicate 29
                  (Some (activeIndex st,
                     (if js_truthy (lastHeight st) then lastHeight st else Num 0)))
                @ [Some ((activeIndex st + i) mod length rpcConfigs,
                         fetchBlockHeight
                           (resp30 ((activeIndex st + i) mod length rpcConfigs)))])"
proof (intro conjI impI)
  assume "length resps \<le> 29"
  then have "issueCount st + length resps < FAILOVER_THRESHOLD"
    using assms(2) by (simp add: FAILOVER_THRESHOLD_def)
  then show "polls net rpcConfigs resps st
              = replicate (length resps)
                  (Some (activeIndex st,
                     (if js_truthy (lastHeight st) then lastHeight st else Num 0)))"
    using polls_below_threshold[OF assms(1) assms(3)] by simp
next
  assume h: "length resps = 29
            \<and> fetchBlockHeight (resp30 (activeIndex st)) = Num 0
            \<and> 1 \<le> i \<and> i < length rpcConfigs
            \<and> js_gt (fetchBlockHeight (resp30 ((activeIndex st + i) mod length rpcConfigs))) (Num 0)
            \<and> (\<forall>j. 1 \<le> j \<and> j < i \<longrightarrow>
                  \<not> js_gt (fetchBlockHeight
                             (resp30 ((activeIndex st + j) mod length rpcConfigs))) (Num 0))"
  let ?st29 = "st\<lparr>issueCount := issueCount st + length resps\<rparr>"
  have below: "issueCount st + length resps < FAILOVER_THRESHOLD"
    using h assms(2) by (simp add: FAILOVER_THRESHOLD_def)
  note first = polls_below_threshold[OF assms(1) assms(3) below, of net]
  have a: "activeIndex ?st29 < length rpcConfigs" using assms(1) by simp
  have b: "fetchBlockHeight (resp30 (activeIndex ?st29)) = Num 0" using h by simp
  have c: "issueCount ?st29 + 1 = FAILOVER_THRESHOLD"
    using h assms(2) by (simp add: FAILOVER_THRESHOLD_def)
  have d: "1 \<le> i" "i < length rpcConfigs" using h by simp_all
  have e: "js_gt (fetchBlockHeight
                    (resp30 ((activeIndex ?st29 + i) mod length rpcConfigs))) (Num 0)"
    using h by simp
  have f: "\<forall>j. 1 \<le> j \<and> j < i \<longrightarrow>
             \<not> js_gt (fetchBlockHeight
                        (resp30 ((activeIndex ?st29 + j) mod length rpcConfigs))) (Num 0)"
    using h by simp
  from fetchCurrentHeight_failover[OF a b c d e f, of net]
  obtain st' alerts where last:
    "fetchCurrentHeight net rpcConfigs resp30 ?st29
       = Inr (st', fetchBlockHeight (resp30 ((activeIndex st + i) mod length rpcConfigs)), alerts)"
    "activeIndex st' = (activeIndex st + i) mod length rpcConfigs"
    by auto
  show "polls net rpcConfigs (resps @ [resp30]) st
              = replicate 29
                  (Some (activeIndex st,
                     (if js_truthy (lastHeight st) then lastHeight st else Num 0)))
                @ [Some ((activeIndex st + i) mod length rpcConfigs,
                         fetchBlockHeight
                           (resp30 ((activeIndex st + i) mod length rpcConfigs)))]"
    using first last h by (simp add: polls_append)
qed


lemma fetchBlockHeight_hex_65:
  "fetchBlockHeight (Response True (ObjectBody (Some ''0x65''))) = Num 101"
  by code_simp

theorem failover_threshold_witness:
  "polls Mainnet [(''u0'', ''A''), (''u1'', ''B''), (''u2'', ''C'')]
     (replicate 29 (\<lambda>i. FetchThrows)
      @ [\<lambda>i. if i = 2 then Response True (ObjectBody (Some ''0x65'')) else FetchThrows])
     \<lparr>activeIndex = 0, lastHeight = Num 100, issueCount = 0, failoverAlertSent = False\<rparr>
   = replicate 29 (Some (0, Num 100)) @ [Some (2, Num 101)]"
proof -
  let ?cfgs = "[(''u0'', ''A''), (''u1'', ''B''), (''u2'', ''C'')]"
  let ?st = "\<lparr>activeIndex = 0, lastHeight = Num 100, issueCount = 0, failoverAlertSent = False\<rparr>"
  let ?r30 = "\<lambda>i::nat. if i = 2 then Response True (ObjectBody (Some ''0x65'')) else FetchThrows"
  have a: "activeIndex ?st < length ?cfgs" and b: "issueCount ?st = 0" by simp_all
  have c: "\<forall>resp \<in> set (replicate 29 (\<lambda>i::nat. FetchThrows)).
             fetchBlockHeight (resp (activeIndex ?st)) = Num 0"
    by (simp add: fetchBlockHeight_def)
  have none_before: "\<forall>j. 1 \<le> j \<and> j < 2 \<longrightarrow>
      \<not> js_gt (fetchBlockHeight (?r30 ((activeIndex ?st + j) mod length ?cfgs))) (Num 0)"
  proof (intro allI impI)
    fix j :: nat
    assume "1 \<le> j \<and> j < 2"
    then have "j = 1" by simp
    then show "\<not> js_gt (fetchBlockHeight (?r30 ((activeIndex ?st + j) mod length ?cfgs))) (Num 0)"
      by (simp add: fetchBlockHeight_def)
  qed
  have d: "length (replicate 29 (\<lambda>i::nat. FetchThrows)) = 29
            \<and> fetchBlockHeight (?r30 (activeIndex ?st)) = Num 0
            \<and> 1 \<le> (2::nat) \<and> 2 < length ?cfgs
            \<and> js_gt (fetchBlockHeight (?r30 ((activeIndex ?st + 2) mod length ?cfgs))) (Num 0)
            \<and> (\<forall>j. 1 \<le> j \<and> j < 2 \<longrightarrow>
                  \<not> js_gt (fetchBlockHeight
                             (?r30 ((activeIndex ?st + j) mod length ?cfgs))) (Num 0))"
    using none_before by (simp add: fetchBlockHeight_hex_65) (simp add: fetchBlockHeight_def)
  from failover_threshold[OF a b c, where ?resp30.0 = ?r30 and i = 2 and net = Mainnet] d
  have "polls Mainnet ?cfgs (replicate 29 (\<lambda>i. FetchThrows) @ [?r30]) ?st
          = replicate 29
              (Some (activeIndex ?st,
                 (if js_truthy (lastHeight ?st) then lastHeight ?st else Num 0)))
            @ [Some ((activeIndex ?st + 2) mod length ?cfgs,
                     fetchBlockHeight (?r30 ((activeIndex ?st + 2) mod length ?cfgs)))]"
    by blast
  then show ?thesis by (simp add: fetchBlockHeight_hex_65)
qed


lemma scanFallbacks_Some_first:
  "scanFallbacks n a resp h cands = Some (k, fh) \<Longrightarrow>
   \<exists>m < length cands.
      k = (a + cands ! m) mod n
      \<and> fh = fetchBlockHeight (resp k)
      \<and> isValidFallback h fh
      \<and> (\<forall>j < m. \<not> isValidFallback h (fetchBlockHeight (resp ((a + cands ! j) mod n))))"
proof (induction cands)
  case Nil
  then show ?case by simp
next
  case (Cons c cands)
  show ?case
  proof (cases "isValidFallback h (fetchBlockHeight (resp ((a + c) mod n)))")
    case True
    then have "k = (a + c) mod n" "fh = fetchBlockHeight (resp ((a + c) mod n))"
      using Cons.prems by (auto simp: Let_def)
    then show ?thesis using True by (intro exI[of _ 0]) simp
  next
    case False
    then have "scanFallbacks n a resp h cands = Some (k, fh)"
      using Cons.prems by (simp add: Let_def)
    from Cons.IH[OF this] obtain m where m: "m < length cands"
        "k = (a + cands ! m) mod n" "fh = fetchBlockHeight (resp k)" "isValidFallback h fh"
        "\<forall>j < m. \<not> isValidFallback h (fetchBlockHeight (resp ((a + cands ! j) mod n)))"
      by blast
    have "\<forall>j < Suc m. \<not> isValidFallback h
            (fetchBlockHeight (resp ((a + (c # cands) ! j) mod n)))"
    proof (intro allI impI)
      fix j assume "j < Suc m"
      then show "\<not> isValidFallback h (fetchBlockHeight (resp ((a + (c # cands) ! j) mod n)))"
        using False m(5) by (cases j) simp_all
    qed
    then show ?thesis using m by (intro exI[of _ "Suc m"]) simp
  qed
qed

text \<open>
  The scan from an active index \<open>a\<close> other than 0 ends on the primary exactly when
  the primary's height is valid and no endpoint ranked after \<open>a\<close> has a valid height.
\<close>

lemma scan_reaches_primary:
  assumes a: "0 < a" "a < n"
  shows "(\<exists>fh. scanFallbacks n a resp h [1..<n] = Some (0, fh))
         \<longleftrightarrow> (isValidFallback h (fetchBlockHeight (resp 0))
              \<and> (\<forall>k. a < k \<and> k < n \<longrightarrow> \<not> isValidFallback h (fetchBlockHeight (resp k))))"
proof
  assume "\<exists>fh. scanFallbacks n a resp h [1..<n] = Some (0, fh)"
  then obtain fh where "scanFallbacks n a resp h [1..<n] = Some (0, fh)" by blast
  from scanFallbacks_Some_first[OF this] obtain m where m: "m < length [1..<n]"
      "0 = (a + [1..<n] ! m) mod n" "fh = fetchBlockHeight (resp 0)" "isValidFallback h fh"
      "\<forall>j < m. \<not> isValidFallback h (fetchBlockHeight (resp ((a + [1..<n] ! j) mod n)))"
    by blast
  have mn: "m + 1 < n" using m(1) by simp
  have nth: "[1..<n] ! m = 1 + m" using mn by simp
  have zero: "(a + (1 + m)) mod n = 0" using m(2) nth by simp
  have "a + (1 + m) < 2 * n" using a mn by simp
  moreover have "0 < a + (1 + m)" by simp
  ultimately have am: "a + (1 + m) = n"
  proof (cases "a + (1 + m) < n")
    case True
    then have "(a + (1 + m)) mod n = a + (1 + m)" by simp
    then show ?thesis using zero by simp
  next
    case False
    then have ge: "n \<le> a + (1 + m)" by simp
    then have "(a + (1 + m)) mod n = (a + (1 + m) - n) mod n" by (rule le_mod_geq)
    moreover have "a + (1 + m) - n < n" using \<open>a + (1 + m) < 2 * n\<close> by simp
    ultimately have "a + (1 + m) - n = 0" using zero by simp
    then show ?thesis using ge by simp
  qed
  have "\<not> isValidFallback h (fetchBlockHeight (resp k))" if k: "a < k \<and> k < n" for k
  proof -
    let ?j = "k - a - 1"
    have j: "?j < m" using k am by arith
    have jn: "?j + 1 < n" using j mn by simp
    have "[1..<n] ! ?j = 1 + ?j" using jn by simp
    moreover have "a + (1 + ?j) = k" using k by arith
    moreover have "k mod n = k" using k by simp
    ultimately show ?thesis using m(5) j by (metis)
  qed
  then show "isValidFallback h (fetchBlockHeight (resp 0))
              \<and> (\<forall>k. a < k \<and> k < n \<longrightarrow> \<not> isValidFallback h (fetchBlockHeight (resp k)))"
    using m(3,4) by blast
next
  assume r: "isValidFallback h (fetchBlockHeight (resp 0))
              \<and> (\<forall>k. a < k \<and> k < n \<longrightarrow> \<not> isValidFallback h (fetchBlockHeight (resp k)))"
  let ?i = "n - a"
  have i: "1 \<le> ?i" "?i < n" using a by simp_all
  have wrap: "(a + ?i) mod n = 0" using a by simp
  have before: "\<forall>j \<in> set [1..<?i]. \<not> isValidFallback h (fetchBlockHeight (resp ((a + j) mod n)))"
  proof
    fix j assume "j \<in> set [1..<?i]"
    then have "a < a + j \<and> a + j < n" by auto
    then show "\<not> isValidFallback h (fetchBlockHeight (resp ((a + j) mod n)))"
      using r by simp
  qed
  have valid: "isValidFallback h (fetchBlockHeight (resp ((a + ?i) mod n)))"
    using r wrap by simp
  have "scanFallbacks n a resp h [1..<n]
          = Some ((a + ?i) mod n, fetchBlockHeight (resp ((a + ?i) mod n)))"
    using scanFallbacks_first[OF before valid] upt_split[OF i] by simp
  then show "\<exists>fh. scanFallbacks n a resp h [1..<n] = Some (0, fh)"
    using wrap by simp
qed

text \<open>
  C7, as stated, fails: the candidate loop wraps round to index 0. After a failover from
  the primary to the second of two endpoints, 30 polls during which the second endpoint
  is down switch back to the primary, with no recovery check involved and with a primary
  height (5) below the last known height (101).
\<close>

theorem wraparound_counterexample:
  "activeIndex (steps Mainnet [(''u0'', ''A''), (''u1'', ''B'')]
      (replicate 30 (Poll (\<lambda>i. if i = 0 then FetchThrows
                                else Response True (ObjectBody (Some ''0x65'')))))
      \<lparr>activeIndex = 0, lastHeight = Num 100, issueCount = 0, failoverAlertSent = False\<rparr>) = 1
   \<and> steps Mainnet [(''u0'', ''A''), (''u1'', ''B'')]
      (replicate 30 (Poll (\<lambda>i. if i = 0 then FetchThrows
                                else Response True (ObjectBody (Some ''0x65''))))
       @ replicate 30 (Poll (\<lambda>i. if i = 1 then FetchThrows
                                  else Response True (ObjectBody (Some ''0x5'')))))
      \<lparr>activeIndex = 0, lastHeight = Num 100, issueCount = 0, failoverAlertSent = False\<rparr>
     = \<lparr>activeIndex = 0, lastHeight = Num 5, issueCount = 0, failoverAlertSent = True\<rparr>"
  by code_simp

text \<open>
  C7, amended. Once the active index is away from the primary, it returns to index 0 in
  exactly two ways. The recovery check sees the primary's height positive and strictly
  above the last known height. Or a height poll finds an issue on the active endpoint
  with the issue streak reaching the failover threshold, and its candidate loop,
  wrapping round, takes the primary as the first valid fallback: the primary's height is
  valid and no endpoint ranked after the active one has a valid height. A poll that
  leaves the issue streak below the threshold never changes the active index, whatever
  the primary answers.
\<close>

theorem no_flap:
  assumes "activeIndex st \<noteq> 0"
  shows "(activeIndex (step net rpcConfigs (RecoveryCheck resp) st) = 0 \<longleftrightarrow>
            activeIndex st < length rpcConfigs
            \<and> js_gt (fetchBlockHeight (resp 0)) (Num 0)
            \<and> js_gt (fetchBlockHeight (resp 0)) (lastHeight st))
       \<and> (activeIndex (step net rpcConfigs (Poll resp) st) = 0 \<longleftrightarrow>
            activeIndex st < length rpcConfigs
            \<and> FAILOVER_THRESHOLD \<le> issueCount st + 1
            \<and> (js_eq (fetchBlockHeight (resp (activeIndex st))) (Num 0)
                \<or> js_eq (fetchBlockHeight (resp (activeIndex st))) (lastHeight st))
            \<and> isValidFallback (fetchBlockHeight (resp (activeIndex st)))
                 (fetchBlockHeight (resp 0))
            \<and> (\<forall>k. activeIndex st < k \<and> k < length rpcConfigs \<longrightarrow>
                  \<not> isValidFallback (fetchBlockHeight (resp (activeIndex st)))
                       (fetchBlockHeight (resp k))))
       \<and> (issueCount st + 1 < FAILOVER_THRESHOLD \<longrightarrow>
            activeIndex (step net rpcConfigs (Poll resp) st) = activeIndex st)"
proof -
  let ?a = "activeIndex st"
  let ?h = "fetchBlockHeight (resp ?a)"
  let ?n = "length rpcConfigs"
  have recovery: "activeIndex (step net rpcConfigs (RecoveryCheck resp) st) = 0 \<longleftrightarrow>
            ?a < ?n
            \<and> js_gt (fetchBlockHeight (resp 0)) (Num 0)
            \<and> js_gt (fetchBlockHeight (resp 0)) (lastHeight st)"
    using assms
    by (auto simp: step_def checkPrimaryRecovery_def Let_def split: if_splits)
  have scanned: "activeIndex (step net rpcConfigs (Poll resp) st) = 0 \<longleftrightarrow>
            ?a < ?n
            \<and> FAILOVER_THRESHOLD \<le> issueCount st + 1
            \<and> (js_eq ?h (Num 0) \<or> js_eq ?h (lastHeight st))
            \<and> (\<exists>fh. scanFallbacks ?n ?a resp ?h [1..<?n] = Some (0, fh))"
    using assms
    by (auto simp: step_def fetchCurrentHeight_def Let_def split: if_splits option.splits)
  have poll: "activeIndex (step net rpcConfigs (Poll resp) st) = 0 \<longleftrightarrow>
            ?a < ?n
            \<and> FAILOVER_THRESHOLD \<le> issueCount st + 1
            \<and> (js_eq ?h (Num 0) \<or> js_eq ?h (lastHeight st))
            \<and> isValidFallback ?h (fetchBlockHeight (resp 0))
            \<and> (\<forall>k. ?a < k \<and> k < ?n \<longrightarrow> \<not> isValidFallback ?h (fetchBlockHeight (resp k)))"
  proof (cases "?a < ?n")
    case True
    have pos: "0 < ?a" using assms by simp
    show ?thesis using scanned scan_reaches_primary[OF pos True, of resp ?h] by blast
  next
    case False
    then show ?thesis using scanned by blast
  qed
  have quiet: "activeIndex (step net rpcConfigs (Poll resp) st) = activeIndex st"
    if "issueCount st + 1 < FAILOVER_THRESHOLD"
    using that
    by (auto simp: step_def fetchCurrentHeight_def Let_def split: if_splits option.splits)
  show ?thesis using recovery poll quiet by blast
qed

theorem no_flap_witness:
  "activeIndex (step Mainnet [(''u0'', ''A''), (''u1'', ''B''), (''u2'', ''C'')]
      (RecoveryCheck (\<lambda>i. if i = 0 then Response True (ObjectBody (Some ''0x66''))
                            else Response True (ObjectBody (Some ''0x65''))))
      \<lparr>activeIndex = 1, lastHeight = Num 101, issueCount = 3, failoverAlertSent = True\<rparr>) = 0
   \<and> activeIndex (step Mainnet [(''u0'', ''A''), (''u1'', ''B''), (''u2'', ''C'')]
      (Poll (\<lambda>i. if i = 0 then Response True (ObjectBody (Some ''0x66''))
                   else Response True (ObjectBody (Some ''0x65''))))
      \<lparr>activeIndex = 1, lastHeight = Num 101, issueCount = 3, failoverAlertSent = True\<rparr>) = 1
   \<and> activeIndex (step Mainnet [(''u0'', ''A''), (''u1'', ''B''), (''u2'', ''C'')]
      (Poll (\<lambda>i. if i = 0 then Response True (ObjectBody (Some ''0x66''))
                   else Response True (ObjectBody (Some ''0x65''))))
      \<lparr>activeIndex = 1, lastHeight = Num 101, issueCount = 29, failoverAlertSent = True\<rparr>) = 0
   \<and> activeIndex (step Mainnet [(''u0'', ''A''), (''u1'', ''B''), (''u2'', ''C'')]
      (Poll (\<lambda>i. if i = 0 then Response True (ObjectBody (Some ''0x66''))
                   else if i = 1 then Response True (ObjectBody (Some ''0x65''))
                   else Response True (ObjectBody (Some ''0x70''))))
      \<lparr>activeIndex = 1, lastHeight = Num 101, issueCount = 29, failoverAlertSent = True\<rparr>) \<noteq> 0"
proof -
  let ?cfgs = "[(''u0'', ''A''), (''u1'', ''B''), (''u2'', ''C'')]"
  let ?r = "\<lambda>i::nat. if i = 0 then Response True (ObjectBody (Some ''0x66''))
                      else Response True (ObjectBody (Some ''0x65''))"
  let ?q = "\<lambda>i::nat. if i = 0 then Response True (ObjectBody (Some ''0x66''))
                   else if i = 1 then Response True (ObjectBody (Some ''0x65''))
                   else Response True (ObjectBody (Some ''0x70''))"
  let ?st = "\<lparr>activeIndex = 1, lastHeight = Num 101, issueCount = 3, failoverAlertSent = True\<rparr>"
  let ?st29 = "\<lparr>activeIndex = 1, lastHeight = Num 101, issueCount = 29, failoverAlertSent = True\<rparr>"
  have away: "activeIndex ?st \<noteq> 0" "activeIndex ?st29 \<noteq> 0" by simp_all
  have h65: "fetchBlockHeight (Response True (ObjectBody (Some ''0x65''))) = Num 101"
    and h66: "fetchBlockHeight (Response True (ObjectBody (Some ''0x66''))) = Num 102"
    and h70: "fetchBlockHeight (Response True (ObjectBody (Some ''0x70''))) = Num 112"
    by code_simp+
  have only2: "k = 2" if "activeIndex ?st29 < k \<and> k < length ?cfgs" for k :: nat
    using that by simp
  \<comment> \<open>the recovery check sees the primary above the last known height\<close>
  have rec: "activeIndex ?st < length ?cfgs
            \<and> js_gt (fetchBlockHeight (?r 0)) (Num 0)
            \<and> js_gt (fetchBlockHeight (?r 0)) (lastHeight ?st)"
    by (simp add: h66)
  \<comment> \<open>below the threshold nothing moves\<close>
  have low: "issueCount ?st + 1 < FAILOVER_THRESHOLD" by (simp add: FAILOVER_THRESHOLD_def)
  \<comment> \<open>at the threshold, the endpoint ranked after the active one is as stale as it\<close>
  have sw: "activeIndex ?st29 < length ?cfgs
            \<and> FAILOVER_THRESHOLD \<le> issueCount ?st29 + 1
            \<and> (js_eq (fetchBlockHeight (?r (activeIndex ?st29))) (Num 0)
                \<or> js_eq (fetchBlockHeight (?r (activeIndex ?st29))) (lastHeight ?st29))
            \<and> isValidFallback (fetchBlockHeight (?r (activeIndex ?st29)))
                 (fetchBlockHeight (?r 0))
            \<and> (\<forall>k. activeIndex ?st29 < k \<and> k < length ?cfgs \<longrightarrow>
                  \<not> isValidFallback (fetchBlockHeight (?r (activeIndex ?st29)))
                       (fetchBlockHeight (?r k)))"
    using only2 by (auto simp: h65 h66 FAILOVER_THRESHOLD_def isValidFallback_def)
  \<comment> \<open>at the threshold, the endpoint ranked after the active one is ahead\<close>
  have ahead: "activeIndex ?st29 < 2 \<and> 2 < length ?cfgs
            \<and> isValidFallback (fetchBlockHeight (?q (activeIndex ?st29)))
                 (fetchBlockHeight (?q 2))"
    by (simp add: h65 h70 isValidFallback_def)
  from no_flap[OF away(1), of Mainnet ?cfgs ?r] rec low
  have a: "activeIndex (step Mainnet ?cfgs (RecoveryCheck ?r) ?st) = 0"
      "activeIndex (step Mainnet ?cfgs (Poll ?r) ?st) = activeIndex ?st"
    by blast+
  from no_flap[OF away(2), of Mainnet ?cfgs ?r] sw
  have b: "activeIndex (step Mainnet ?cfgs (Poll ?r) ?st29) = 0"
    by blast
  from no_flap[OF away(2), of Mainnet ?cfgs ?q] ahead
  have c: "activeIndex (step Mainnet ?cfgs (Poll ?q) ?st29) \<noteq> 0"
    by blast
  show ?thesis using a b c by simp
qed

section \<open>Properties of all-offline detection\<close>

lemma runRpcHealthCheck_offline:
  "runRpcHealthCheck True net urls tick st = (st', healthy, alert) \<Longrightarrow>
   (offline st', alert)
     = checkAllOffline net urls healthy (newDate tick) (dateNow tick) (progress tick) (offline st)"
  by (auto simp: runRpcHealthCheck_def Let_def split: prod.splits)

lemma runTicks_append:
  "runTicks net urls (xs @ ys) st
     = runTicks net urls xs st @ runTicks net urls ys (stateAfter net urls xs st)"
  by (induction xs arbitrary: st) (simp_all add: split_def Let_def)

lemma checkAllOffline_sent:
  "urls \<noteq> [] \<Longrightarrow> isOffline off \<Longrightarrow> alertSent off \<Longrightarrow>
   checkAllOffline net urls 0 nd dn pr off = (off, None)"
  by (simp add: checkAllOffline_def Let_def)

lemma checkAllOffline_waiting:
  "urls \<noteq> [] \<Longrightarrow> isOffline off \<Longrightarrow> since off = Some t0 \<Longrightarrow> \<not> alertSent off \<Longrightarrow>
   checkAllOffline net urls 0 nd dn pr off
     = (if 3 \<le> (dn - t0) div 60000
        then (off\<lparr>alertSent := True\<rparr>,
              Some \<lparr>rpcUrls = urls, alertNetwork = net, downtime = (dn - t0) div 60000,
                    chainProgressing = pr\<rparr>)
        else (off, None))"
  by (simp add: checkAllOffline_def Let_def)

lemma checkAllOffline_opens:
  "urls \<noteq> [] \<Longrightarrow> \<not> isOffline off \<Longrightarrow>
   checkAllOffline net urls 0 nd dn pr off
     = checkAllOffline net urls 0 nd dn pr \<lparr>isOffline = True, since = Some nd, alertSent = False\<rparr>"
  by (simp add: checkAllOffline_def Let_def)

lemma runTicks_sent:
  "urls \<noteq> [] \<Longrightarrow> isOffline (offline st) \<Longrightarrow> alertSent (offline st) \<Longrightarrow>
   \<forall>r \<in> set (runTicks net urls ticks st). fst r = 0 \<Longrightarrow>
   map snd (runTicks net urls ticks st) = replicate (length ticks) None"
proof (induction ticks arbitrary: st)
  case Nil
  then show ?case by simp
next
  case (Cons tick ticks)
  obtain st' healthy alert where run: "runRpcHealthCheck True net urls tick st = (st', healthy, alert)"
    by (cases "runRpcHealthCheck True net urls tick st") auto
  have h0: "healthy = 0" using Cons.prems(4) run by simp
  have "(offline st', alert) = (offline st, None)"
    using runRpcHealthCheck_offline[OF run] h0 checkAllOffline_sent[OF Cons.prems(1,2,3)]
    by simp
  then have same: "offline st' = offline st" and none: "alert = None" by simp_all
  have rest: "\<forall>r \<in> set (runTicks net urls ticks st'). fst r = 0"
    using Cons.prems(4) run by simp
  have "map snd (runTicks net urls ticks st') = replicate (length ticks) None"
    using Cons.IH[OF Cons.prems(1) _ _ rest] same Cons.prems(2,3) by simp
  then show ?case using run none by simp
qed

lemma runTicks_waiting:
  "urls \<noteq> [] \<Longrightarrow> isOffline (offline st) \<Longrightarrow> since (offline st) = Some t0 \<Longrightarrow>
   \<not> alertSent (offline st) \<Longrightarrow>
   \<forall>r \<in> set (runTicks net urls ticks st). fst r = 0 \<Longrightarrow>
   \<forall>tick \<in> set ticks. \<not> 3 \<le> (dateNow tick - t0) div 60000 \<Longrightarrow>
   map snd (runTicks net urls ticks st) = replicate (length ticks) None
   \<and> offline (stateAfter net urls ticks st) = offline st"
proof (induction ticks arbitrary: st)
  case Nil
  then show ?case by simp
next
  case (Cons tick ticks)
  obtain st' healthy alert where run: "runRpcHealthCheck True net urls tick st = (st', healthy, alert)"
    by (cases "runRpcHealthCheck True net urls tick st") auto
  have h0: "healthy = 0" using Cons.prems(5) run by simp
  have early: "\<not> 3 \<le> (dateNow tick - t0) div 60000" using Cons.prems(6) by simp
  have "(offline st', alert) = (offline st, None)"
    using runRpcHealthCheck_offline[OF run] h0
      checkAllOffline_waiting[OF Cons.prems(1,2,3,4)] early
    by simp
  then have same: "offline st' = offline st" and none: "alert = None" by simp_all
  have rest: "\<forall>r \<in> set (runTicks net urls ticks st'). fst r = 0"
    using Cons.prems(5) run by simp
  have later: "\<forall>tick \<in> set ticks. \<not> 3 \<le> (dateNow tick - t0) div 60000"
    using Cons.prems(6) by simp
  have "map snd (runTicks net urls ticks st') = replicate (length ticks) None
        \<and> offline (stateAfter net urls ticks st') = offline st'"
    using Cons.IH[OF Cons.prems(1) _ _ _ rest later] same Cons.prems(2,3,4) by simp
  then show ?case using run none same by simp
qed


lemma runTicks_crossing:
  assumes urls: "urls \<noteq> []"
    and armed: "isOffline (offline st)" "since (offline st) = Some t0" "\<not> alertSent (offline st)"
    and quiet: "\<forall>r \<in> set (runTicks net urls (pre @ tick # post) st). fst r = 0"
    and early: "\<forall>p \<in> set pre. \<not> 3 \<le> (dateNow p - t0) div 60000"
    and reached: "3 \<le> (dateNow tick - t0) div 60000"
  shows "map snd (runTicks net urls (pre @ tick # post) st)
         = replicate (length pre) None
           @ [Some \<lparr>rpcUrls = urls, alertNetwork = net,
                    downtime = (dateNow tick - t0) div 60000,
                    chainProgressing = progress tick\<rparr>]
           @ replicate (length post) None"
proof -
  let ?mid = "stateAfter net urls pre st"
  have q1: "\<forall>r \<in> set (runTicks net urls pre st). fst r = 0"
    and q2: "\<forall>r \<in> set (runTicks net urls (tick # post) ?mid). fst r = 0"
    using quiet by (simp_all add: runTicks_append)
  have first: "map snd (runTicks net urls pre st) = replicate (length pre) None"
    and mid: "offline ?mid = offline st"
    using runTicks_waiting[OF urls armed q1 early] by simp_all
  obtain st' healthy alert where
    run: "runRpcHealthCheck True net urls tick ?mid = (st', healthy, alert)"
    by (cases "runRpcHealthCheck True net urls tick ?mid") auto
  have h0: "healthy = 0" using q2 run by simp
  have "(offline st', alert)
          = ((offline st)\<lparr>alertSent := True\<rparr>,
             Some \<lparr>rpcUrls = urls, alertNetwork = net,
                   downtime = (dateNow tick - t0) div 60000,
                   chainProgressing = progress tick\<rparr>)"
    using runRpcHealthCheck_offline[OF run] h0 mid
      checkAllOffline_waiting[OF urls armed, of net "newDate tick" "dateNow tick" "progress tick"]
      reached
    by simp
  then have off': "offline st' = (offline st)\<lparr>alertSent := True\<rparr>"
    and alert: "alert = Some \<lparr>rpcUrls = urls, alertNetwork = net,
                   downtime = (dateNow tick - t0) div 60000,
                   chainProgressing = progress tick\<rparr>"
    by simp_all
  have q3: "\<forall>r \<in> set (runTicks net urls post st'). fst r = 0"
    using q2 run by simp
  have last: "map snd (runTicks net urls post st') = replicate (length post) None"
    using runTicks_sent[OF urls _ _ q3] off' armed(1) by simp
  show ?thesis
    using first run alert last by (simp add: runTicks_append)
qed

lemma runRpcHealthCheck_opens:
  assumes "urls \<noteq> []" and "\<not> isOffline (offline st)"
    and "runRpcHealthCheck True net urls tick st = (st', 0, alert)"
  shows "runRpcHealthCheck True net urls tick
           (st\<lparr>offline := \<lparr>isOffline = True, since = Some (newDate tick), alertSent = False\<rparr>\<rparr>)
         = (st', 0, alert)"
  using assms checkAllOffline_opens[OF assms(1,2), of net "newDate tick" "dateNow tick" "progress tick"]
  by (auto simp: runRpcHealthCheck_def Let_def split: prod.splits)

lemma runTicks_opens:
  assumes "urls \<noteq> []" and "\<not> isOffline (offline st)"
    and "\<forall>r \<in> set (runTicks net urls (tick # rest) st). fst r = 0"
  shows "runTicks net urls (tick # rest)
           (st\<lparr>offline := \<lparr>isOffline = True, since = Some (newDate tick), alertSent = False\<rparr>\<rparr>)
         = runTicks net urls (tick # rest) st"
proof -
  obtain st' healthy alert where
    run: "runRpcHealthCheck True net urls tick st = (st', healthy, alert)"
    by (cases "runRpcHealthCheck True net urls tick st") auto
  have h0: "healthy = 0" using assms(3) run by simp
  show ?thesis
    using runRpcHealthCheck_opens[OF assms(1,2) run[unfolded h0]] run h0 by simp
qed


text \<open>
  C9. An offline episode of a network with at least one endpoint: the monitor is not in
  the offline state when the first tick finds no healthy endpoint, and no tick of the
  episode finds one. The downtime of a tick is counted from the clock reading taken at
  the first tick. If no tick reaches 3 minutes, no alert is sent. Otherwise the alert is
  sent exactly once, at the first tick whose downtime reaches 3 minutes, and at no tick
  before or after it. Once the alert is sent, a tick without a healthy endpoint keeps
  the guard set; a tick with a healthy endpoint clears the offline state and the guard.
\<close>

theorem all_offline_gate:
  assumes "urls \<noteq> []"
    and "\<not> isOffline (offline st)"
    and "ticks \<noteq> []"
    and "\<forall>r \<in> set (runTicks net urls ticks st). fst r = 0"
  shows "((\<forall>tick \<in> set ticks. (dateNow tick - newDate (hd ticks)) div 60000 < 3) \<longrightarrow>
            map snd (runTicks net urls ticks st) = replicate (length ticks) None)
       \<and> (\<forall>pre tick post.
            ticks = pre @ tick # post
            \<and> (\<forall>p \<in> set pre. (dateNow p - newDate (hd ticks)) div 60000 < 3)
            \<and> 3 \<le> (dateNow tick - newDate (hd ticks)) div 60000
          \<longrightarrow>
            map snd (runTicks net urls ticks st)
              = replicate (length pre) None
                @ [Some \<lparr>rpcUrls = urls, alertNetwork = net,
                         downtime = (dateNow tick - newDate (hd ticks)) div 60000,
                         chainProgressing = progress tick\<rparr>]
                @ replicate (length post) None)
       \<and> (\<forall>tick s. isOffline (offline s) \<and> alertSent (offline s)
                    \<and> fst (snd (runRpcHealthCheck True net urls tick s)) = 0
          \<longrightarrow> alertSent (offline (fst (runRpcHealthCheck True net urls tick s))))
       \<and> (\<forall>tick s. 0 < fst (snd (runRpcHealthCheck True net urls tick s))
          \<longrightarrow> offline (fst (runRpcHealthCheck True net urls tick s))
                = \<lparr>isOffline = False, since = None, alertSent = False\<rparr>)"
proof -
  obtain tick0 rest where ticks: "ticks = tick0 # rest"
    using assms(3) by (cases ticks) auto
  define t0 where "t0 = newDate (hd ticks)"
  let ?armed = "st\<lparr>offline := \<lparr>isOffline = True, since = Some t0, alertSent = False\<rparr>\<rparr>"
  have same: "runTicks net urls ticks ?armed = runTicks net urls ticks st"
    using runTicks_opens[OF assms(1,2), of net tick0 rest] assms(4) ticks
    by (simp add: t0_def)
  have armed: "isOffline (offline ?armed)" "since (offline ?armed) = Some t0"
      "\<not> alertSent (offline ?armed)"
    by simp_all
  have quiet: "\<forall>r \<in> set (runTicks net urls ticks ?armed). fst r = 0"
    using assms(4) same by simp
  have none: "map snd (runTicks net urls ticks st) = replicate (length ticks) None"
    if "\<forall>tick \<in> set ticks. (dateNow tick - t0) div 60000 < 3"
  proof -
    have "\<forall>tick \<in> set ticks. \<not> 3 \<le> (dateNow tick - t0) div 60000"
      using that by auto
    from runTicks_waiting[OF assms(1) armed quiet this] same show ?thesis by simp
  qed
  have once: "map snd (runTicks net urls ticks st)
              = replicate (length pre) None
                @ [Some \<lparr>rpcUrls = urls, alertNetwork = net,
                         downtime = (dateNow tick - t0) div 60000,
                         chainProgressing = progress tick\<rparr>]
                @ replicate (length post) None"
    if "ticks = pre @ tick # post
            \<and> (\<forall>p \<in> set pre. (dateNow p - t0) div 60000 < 3)
            \<and> 3 \<le> (dateNow tick - t0) div 60000"
    for pre tick post
  proof -
    have split: "ticks = pre @ tick # post" using that by simp
    have early: "\<forall>p \<in> set pre. \<not> 3 \<le> (dateNow p - t0) div 60000"
      using that by auto
    have reached: "3 \<le> (dateNow tick - t0) div 60000" using that by simp
    have q: "\<forall>r \<in> set (runTicks net urls (pre @ tick # post) ?armed). fst r = 0"
      using quiet split by simp
    from runTicks_crossing[OF assms(1) armed q early reached] same split
    show ?thesis by simp
  qed
  have keeps: "alertSent (offline (fst (runRpcHealthCheck True net urls tick s)))"
    if "isOffline (offline s) \<and> alertSent (offline s)
          \<and> fst (snd (runRpcHealthCheck True net urls tick s)) = 0"
    for tick s
    using that
    by (auto simp: runRpcHealthCheck_def checkAllOffline_def Let_def split: prod.splits)
  have clears: "offline (fst (runRpcHealthCheck True net urls tick s))
                = \<lparr>isOffline = False, since = None, alertSent = False\<rparr>"
    if "0 < fst (snd (runRpcHealthCheck True net urls tick s))"
    for tick s
    using that
    by (auto simp: runRpcHealthCheck_def checkAllOffline_def Let_def split: prod.splits)
  show ?thesis using none once keeps clears unfolding t0_def by blast
qed


theorem all_offline_gate_witness:
  "map snd (runTicks Mainnet [''a'', ''b'']
     (map (\<lambda>t. \<lparr>responses = (\<lambda>i. FetchThrows), newDate = t, dateNow = t + 5,
                  progress = False\<rparr>)
        [0, 60000, 120000, 180000, 240000, 600000])
     \<lparr>heights = Map.empty,
      offline = \<lparr>isOffline = False, since = None, alertSent = False\<rparr>\<rparr>)
   = [None, None, None,
      Some \<lparr>rpcUrls = [''a'', ''b''], alertNetwork = Mainnet, downtime = 3,
            chainProgressing = False\<rparr>,
      None, None]"
proof -
  let ?tk = "\<lambda>t::int. \<lparr>responses = (\<lambda>i::nat. FetchThrows), newDate = t, dateNow = t + 5,
                        progress = False\<rparr>"
  let ?urls = "[''a'', ''b'']"
  let ?st = "\<lparr>heights = Map.empty,
              offline = \<lparr>isOffline = False, since = None, alertSent = False\<rparr>\<rparr>"
  let ?ticks = "map ?tk [0, 60000, 120000, 180000, 240000, 600000]"
  have a: "?urls \<noteq> []" and b: "\<not> isOffline (offline ?st)" and c: "?ticks \<noteq> []"
    by simp_all
  have d: "\<forall>r \<in> set (runTicks Mainnet ?urls ?ticks ?st). fst r = 0"
    by code_simp
  have e: "?ticks = map ?tk [0, 60000, 120000] @ ?tk 180000 # map ?tk [240000, 600000]
      \<and> (\<forall>p \<in> set (map ?tk [0, 60000, 120000]).
            (dateNow p - newDate (hd ?ticks)) div 60000 < 3)
      \<and> 3 \<le> (dateNow (?tk 180000) - newDate (hd ?ticks)) div 60000"
    by simp
  from all_offline_gate[OF a b c d] e
  have "map snd (runTicks Mainnet ?urls ?ticks ?st)
          = replicate (length (map ?tk [0, 60000, 120000])) None
            @ [Some \<lparr>rpcUrls = ?urls, alertNetwork = Mainnet,
                     downtime = (dateNow (?tk 180000) - newDate (hd ?ticks)) div 60000,
                     chainProgressing = progress (?tk 180000)\<rparr>]
            @ replicate (length (map ?tk [240000, 600000])) None"
    by blast
  then show ?thesis by (simp add: numeral_eq_Suc)
qed

end
